theory Spec2Isabelle
  imports Main
begin

section \<open>The browser agent of \<open>packages/core/src/agents/browser/browserAgent.ts\<close>\<close>

text \<open>
  The class \<open>BrowserAgent\<close> runs two loops: the orchestrator loop of \<open>runTask\<close> and the
  visual delegate loop of \<open>runVisualDelegate\<close>. Both talk to collaborators that are not
  part of the file: the browser manager and its MCP client, the browser tools, the chat
  and the content generator, the cancellation signal and the optional \<open>printOutput\<close>
  callback. The embedding passes the state of all of them around as one value of an
  arbitrary type \<open>'w\<close> (the world). Every collaborator is a function of an environment
  record that reads the world and returns its answer with the next world; a call that
  throws returns \<open>Inl\<close> (or \<open>Some\<close>) of the text that
  \<open>e instanceof Error ? e.message : String(e)\<close> yields for the thrown value.

  Beside the world the embedding keeps a trace: the list of the calls the agent has
  issued to its collaborators and of the messages it has handed to \<open>printOutput\<close>,
  oldest first. The trace is what the properties below speak about when they say that
  a call was or was not made.

  What the embedding takes for granted:
  \<^item> every awaited call comes back (it returns or throws), and a stream yields finitely
    many events before it ends or throws;
  \<^item> \<open>signal.aborted\<close> is read from the world, so it changes only where the world does:
    across a call to a collaborator or while the next event of a stream is awaited;
  \<^item> \<open>printOutput\<close> is an observer: it neither throws nor touches the signal;
  \<^item> the values of the arguments of a function call are kept as text.

  Left out, since nothing in the control flow reads them: the calls of \<open>debugLogger\<close>,
  the construction of the chat and the choice of the model names, the fire-and-forget
  calls of the \<open>BrowserLogger\<close> after each model call (with the read of the chat
  history that feeds them), and the variable \<open>_textResponse\<close>, which is written and
  never read.
\<close>

subsection \<open>Strings\<close>

definition nl :: string where
  "nl = [CHR 0x0A]"

text \<open>The emoji of the messages, as their UTF-8 bytes.\<close>

definition warningSign :: string where
  "warningSign = [CHR 0xE2, CHR 0x9A, CHR 0xA0, CHR 0xEF, CHR 0xB8, CHR 0x8F]"

definition thoughtBalloon :: string where
  "thoughtBalloon = [CHR 0xF0, CHR 0x9F, CHR 0x92, CHR 0xAD]"

definition robotFace :: string where
  "robotFace = [CHR 0xF0, CHR 0x9F, CHR 0xA4, CHR 0x96]"

definition wrench :: string where
  "wrench = [CHR 0xF0, CHR 0x9F, CHR 0x94, CHR 0xA7]"

definition crossMark :: string where
  "crossMark = [CHR 0xE2, CHR 0x9D, CHR 0x8C]"

definition checkMark :: string where
  "checkMark = [CHR 0xE2, CHR 0x9C, CHR 0x85]"

text \<open>\<open>Array.prototype.join\<close>.\<close>

fun join :: "string \<Rightarrow> string list \<Rightarrow> string" where
  "join sep [] = []"
| "join sep [x] = x"
| "join sep (x # y # ys) = x @ sep @ join sep (y # ys)"

text \<open>\<open>String.prototype.includes\<close>: the needle starts at some position of the text.\<close>

fun str_includes :: "string \<Rightarrow> string \<Rightarrow> bool" where
  "str_includes [] needle = (needle = [])"
| "str_includes (c # cs) needle = (take (length needle) (c # cs) = needle \<or> str_includes cs needle)"

text \<open>
  \<open>a || b\<close> on an optional string: \<open>undefined\<close> and the empty string are falsy.
  \<open>`${x}`\<close> of an optional string prints \<open>undefined\<close> for a missing one.
\<close>

fun truthy :: "string option \<Rightarrow> bool" where
  "truthy None = False"
| "truthy (Some s) = (s \<noteq> [])"

fun orElse :: "string option \<Rightarrow> string \<Rightarrow> string" where
  "orElse None d = d"
| "orElse (Some s) d = (if s = [] then d else s)"

fun interpolate :: "string option \<Rightarrow> string" where
  "interpolate None = ''undefined''"
| "interpolate (Some s) = s"

text \<open>The decimal digits of a number, for \<open>`${i + 1}`\<close>.\<close>

fun showNat :: "nat \<Rightarrow> string" where
  "showNat n = (if n < 10 then [char_of (48 + n)] else showNat (n div 10) @ [char_of (48 + n mod 10)])"

declare showNat.simps [simp del]

subsection \<open>Data\<close>

text \<open>
  The arguments of a function call are a JavaScript object: an association list from
  keys to values, in insertion order. Values are kept in their textual form.
\<close>

type_synonym Args = "(string \<times> string) list"

datatype FunctionCall = FunctionCall (call_name: "string option") (call_args: "Args option")

text \<open>The methods of \<open>BrowserTools\<close> that the two loops call by name.\<close>

datatype ToolMethod =
    navigate | click | hover | fill | fillForm | uploadFile | getElementText | waitFor
  | handleDialog | evaluateScript | pressKey | drag | closePage | takeSnapshot
  | scrollDocument | clickAt | typeTextAt | dragAndDrop

text \<open>What a browser tool resolves to: \<open>{output?, error?}\<close>.\<close>

datatype ToolResult = ToolResult (res_output: "string option") (res_error: "string option")

text \<open>
  The text of a function response of the orchestrator. The variable \<open>functionResponse\<close>
  holds a string in every case of the switch but \<open>delegate_to_visual_agent\<close>, where it
  holds the object \<open>{output}\<close> that \<open>runVisualDelegate\<close> returns.
\<close>

datatype ResponseText = Str string | VisualRes string

text \<open>
  A \<open>Part\<close> of the model API, with the one field that is set: text (with its
  \<open>thought\<close> flag), inline image data, a function call, the function response of the
  orchestrator (\<open>{name, response: {content: [{type: 'text', text}]}}\<close>) or the function
  response of the visual delegate (\<open>{name, response: funcResult}\<close>).
\<close>

datatype Part =
    Text string bool
  | InlineData string
  | FunctionCallPart FunctionCall
  | FunctionResponse string ResponseText
  | VisualResponse "string option" ToolResult

datatype Content = Content (role: string) (parts: "Part list option")

text \<open>A chunk of the stream: \<open>candidates?.[0]?.content?.parts\<close> and \<open>functionCalls\<close>.\<close>

datatype Chunk = Chunk (chunk_parts: "Part list option") (chunk_calls: "FunctionCall list option")

datatype StreamEvent = CHUNK Chunk | OtherEvent

text \<open>An item of the \<open>content\<close> array of an MCP tool result.\<close>

datatype McpItem = McpItem (item_type: string) (item_text: "string option")

datatype Event =
    Printed string
  | EnsureConnection
  | UpdateBorderOverlay
  | GetMcpClient
  | CallTool string Args
  | SendMessageStream "Part list"
  | BrowserTool ToolMethod "string option list"
  | BrowserToolByName string "string list"
  | GenerateContent "Content list"
  | PageScreenshot

subsection \<open>The collaborators\<close>

text \<open>
  \<^item> \<open>printOutputGiven\<close>: whether the caller passed \<open>printOutput\<close>;
  \<^item> \<open>aborted\<close>: \<open>signal.aborted\<close>;
  \<^item> \<open>ensureConnection\<close>, \<open>getMcpClient\<close>: of the browser manager, \<open>Some e\<close> when they throw;
  \<^item> \<open>updateBorderOverlay\<close>: of the browser tools, \<open>Some e\<close> when it throws;
  \<^item> \<open>callTool\<close>: of the MCP client, returning the \<open>content\<close> of the result
    (\<open>None\<close> when there is no such array);
  \<^item> \<open>sendMessageStream\<close>: of the chat; the events the stream yields, and \<open>Some e\<close> when
    the call or the stream throws after them;
  \<^item> \<open>streamNext\<close>: what awaiting the next event of the stream does to the world;
  \<^item> \<open>parseThought\<close>: the \<open>subject\<close> of a thought text;
  \<^item> \<open>browserTool\<close>: a method of the browser tools, with its positional arguments;
  \<^item> \<open>browserToolByName\<close>: \<open>(this.browserTools as any)[fnName]?.(...)\<close>, \<open>None\<close> when the
    method is missing or resolves to a falsy value;
  \<^item> \<open>generateContent\<close>: of the content generator, returning
    \<open>result.candidates?.[0]?.content\<close>;
  \<^item> \<open>pageScreenshot\<close>: the body of the \<open>try\<close> of \<open>captureScreenshot\<close> (page, overlay,
    screenshot, overlay), returning the base64 text;
  \<^item> \<open>stringify\<close>, \<open>stringifyArgs\<close>: \<open>JSON.stringify\<close> on a tool result and on the
    arguments of a call.
\<close>

record 'w Env =
  printOutputGiven :: bool
  aborted :: "'w \<Rightarrow> bool"
  ensureConnection :: "'w \<Rightarrow> string option \<times> 'w"
  updateBorderOverlay :: "'w \<Rightarrow> string option \<times> 'w"
  getMcpClient :: "'w \<Rightarrow> string option \<times> 'w"
  callTool :: "string \<Rightarrow> Args \<Rightarrow> 'w \<Rightarrow> (string + McpItem list option) \<times> 'w"
  sendMessageStream :: "Part list \<Rightarrow> 'w \<Rightarrow> (StreamEvent list \<times> string option) \<times> 'w"
  streamNext :: "'w \<Rightarrow> 'w"
  parseThought :: "string \<Rightarrow> string"
  browserTool :: "ToolMethod \<Rightarrow> string option list \<Rightarrow> 'w \<Rightarrow> (string + ToolResult) \<times> 'w"
  browserToolByName :: "string \<Rightarrow> string list \<Rightarrow> 'w \<Rightarrow> (string + ToolResult option) \<times> 'w"
  generateContent :: "Content list \<Rightarrow> 'w \<Rightarrow> (string + Content option) \<times> 'w"
  pageScreenshot :: "'w \<Rightarrow> (string + string) \<times> 'w"
  stringify :: "ToolResult \<Rightarrow> string"
  stringifyArgs :: "Args \<Rightarrow> string"

text \<open>The world and the trace.\<close>

record 'w Sys =
  world :: 'w
  trace :: "Event list"

text \<open>A call to a collaborator: the trace records it, the world moves on.\<close>

definition extCall :: "Event \<Rightarrow> ('w \<Rightarrow> 'a \<times> 'w) \<Rightarrow> 'w Sys \<Rightarrow> 'a \<times> 'w Sys" where
  "extCall ev f sys =
     (case f (world sys) of (r, w) \<Rightarrow> (r, \<lparr>world = w, trace = trace sys @ [ev]\<rparr>))"

text \<open>\<open>if (printOutput) printOutput(message)\<close>.\<close>

definition printOutput :: "'w Env \<Rightarrow> string \<Rightarrow> 'w Sys \<Rightarrow> 'w Sys" where
  "printOutput env message sys =
     (if printOutputGiven env then sys\<lparr>trace := trace sys @ [Printed message]\<rparr> else sys)"

definition cancelledNotice :: string where
  "cancelledNotice = warningSign @ ''  Browser task cancelled''"


subsection \<open>Reading parts\<close>

fun part_text :: "Part \<Rightarrow> string option" where
  "part_text (Text s t) = Some s"
| "part_text p = None"

fun part_thought :: "Part \<Rightarrow> bool" where
  "part_thought (Text s t) = t"
| "part_thought p = False"

text \<open>\<open>parts?.filter((p) => 'functionCall' in p)\<close>, as the calls themselves.\<close>

fun functionCallsOf :: "Part list option \<Rightarrow> FunctionCall list" where
  "functionCallsOf None = []"
| "functionCallsOf (Some []) = []"
| "functionCallsOf (Some (FunctionCallPart c # ps)) = c # functionCallsOf (Some ps)"
| "functionCallsOf (Some (p # ps)) = functionCallsOf (Some ps)"

text \<open>\<open>call.args || {}\<close>.\<close>

definition argsOrEmpty :: "FunctionCall \<Rightarrow> Args" where
  "argsOrEmpty call = (case call_args call of None \<Rightarrow> [] | Some a \<Rightarrow> a)"

subsection \<open>\<open>captureScreenshot\<close>\<close>

text \<open>Any failure inside the \<open>try\<close> is caught and gives the empty string.\<close>

definition captureScreenshot :: "'w Env \<Rightarrow> 'w Sys \<Rightarrow> string \<times> 'w Sys" where
  "captureScreenshot env sys =
     (case extCall PageScreenshot (pageScreenshot env) sys of
        (Inl e, sys1) \<Rightarrow> ([], sys1)
      | (Inr screenshotBase64, sys1) \<Rightarrow> (screenshotBase64, sys1))"

subsection \<open>\<open>runVisualDelegate\<close>\<close>

definition VISUAL_MAX_STEPS :: nat where
  "VISUAL_MAX_STEPS = 5"

definition visualSystemInstruction :: "string \<Rightarrow> string" where
  "visualSystemInstruction instruction =
     ''You are a Visual Delegate Agent. You have been delegated a specific task: '' @ [CHR 0x22]
       @ instruction @ [CHR 0x22] @ ''.'' @ nl
     @ ''You have access to valid screenshot of the current state.'' @ nl
     @ ''You MUST perform the necessary actions (click_at, type_text_at, drag_and_drop, scroll_document) to fulfill the instruction.'' @ nl
     @ ''If the element is not visible, use scroll_document to find it.'' @ nl
     @ ''Return a concise summary of your actions when done.'' @ nl"

text \<open>
  Invalidate the MCP cache: \<open>evaluate_script\<close> with a constant function, every failure
  ignored.
\<close>

definition invalidateMcpCache :: "'w Env \<Rightarrow> 'w Sys \<Rightarrow> 'w Sys" where
  "invalidateMcpCache env sys =
     (case extCall GetMcpClient (getMcpClient env) sys of
        (Some e, sys1) \<Rightarrow> sys1
      | (None, sys1) \<Rightarrow>
          snd (extCall (CallTool ''evaluate_script'' [(''function'', ''() => { return true; }'')])
                 (callTool env ''evaluate_script'' [(''function'', ''() => { return true; }'')]) sys1))"

text \<open>The log lines of a visual turn.\<close>

definition argsStr :: "FunctionCall \<Rightarrow> string" where
  "argsStr call =
     (case call_args call of
        None \<Rightarrow> []
      | Some a \<Rightarrow> join '', '' (map (\<lambda>(k, v). k @ ''='' @ v) a))"

definition toolInfo :: "FunctionCall list \<Rightarrow> string" where
  "toolInfo vFunctionCalls =
     join nl (map (\<lambda>call. ''  '' @ wrench @ '' '' @ interpolate (call_name call)
                              @ ''('' @ argsStr call @ '')'') vFunctionCalls)"

definition visualLogParts :: "nat \<Rightarrow> Content \<Rightarrow> string list" where
  "visualLogParts i response =
     (let textResponse =
            (case parts response of
               None \<Rightarrow> []
             | Some ps \<Rightarrow> concat (map (\<lambda>p. orElse (part_text p) []) (filter (\<lambda>p. truthy (part_text p)) ps)));
          vFunctionCalls = functionCallsOf (parts response)
      in (if textResponse \<noteq> [] then [''  '' @ thoughtBalloon @ '' '' @ textResponse] else [])
         @ (if vFunctionCalls \<noteq> []
            then [''[Visual Turn '' @ showNat (i + 1) @ ''/'' @ showNat VISUAL_MAX_STEPS @ '']''
                  @ nl @ toolInfo vFunctionCalls]
            else []))"

definition logVisualTurn :: "'w Env \<Rightarrow> nat \<Rightarrow> Content \<Rightarrow> 'w Sys \<Rightarrow> 'w Sys" where
  "logVisualTurn env i response sys =
     (if visualLogParts i response \<noteq> [] then printOutput env (join nl (visualLogParts i response)) sys
      else sys)"

text \<open>
  \<open>call.args!['x']\<close> on a call without arguments throws the \<open>TypeError\<close> of the engine.
\<close>

definition typeErrorUndefined :: "string \<Rightarrow> string" where
  "typeErrorUndefined key =
     ''Cannot read properties of undefined (reading '' @ [CHR 0x27] @ key @ [CHR 0x27] @ '')''"

definition visualToolCall ::
  "'w Env \<Rightarrow> ToolMethod \<Rightarrow> FunctionCall \<Rightarrow> string \<Rightarrow> string list \<Rightarrow> 'w Sys \<Rightarrow> (string + ToolResult) \<times> 'w Sys" where
  "visualToolCall env m call key keys sys =
     (case call_args call of
        None \<Rightarrow> (Inl (typeErrorUndefined key), sys)
      | Some a \<Rightarrow>
          extCall (BrowserTool m (map (map_of a) (key # keys)))
            (browserTool env m (map (map_of a) (key # keys))) sys)"

text \<open>The \<open>switch\<close> of the visual delegate, inside its \<open>try\<close>.\<close>

definition visualSwitch :: "'w Env \<Rightarrow> FunctionCall \<Rightarrow> 'w Sys \<Rightarrow> (string + ToolResult) \<times> 'w Sys" where
  "visualSwitch env call sys =
     (if call_name call = Some ''click_at'' then
        visualToolCall env clickAt call ''x'' [''y''] sys
      else if call_name call = Some ''type_text_at'' then
        visualToolCall env typeTextAt call ''x'' [''y'', ''text'', ''press_enter'', ''clear_before_typing''] sys
      else if call_name call = Some ''drag_and_drop'' then
        visualToolCall env dragAndDrop call ''x'' [''y'', ''dest_x'', ''dest_y''] sys
      else if call_name call = Some ''press_key'' then
        visualToolCall env pressKey call ''key'' [] sys
      else if call_name call = Some ''scroll_document'' then
        visualToolCall env scrollDocument call ''direction'' [''amount''] sys
      else (Inr (ToolResult None (Some (''Unknown visual tool: '' @ interpolate (call_name call)))), sys))"

text \<open>The \<open>try\<close>/\<open>catch\<close> around it: an exception becomes \<open>{error: message}\<close>.\<close>

definition visualTool :: "'w Env \<Rightarrow> FunctionCall \<Rightarrow> 'w Sys \<Rightarrow> ToolResult \<times> 'w Sys" where
  "visualTool env call sys =
     (case visualSwitch env call sys of
        (Inl message, sys1) \<Rightarrow> (ToolResult None (Some message), sys1)
      | (Inr funcResult, sys1) \<Rightarrow> (funcResult, sys1))"

text \<open>The line of the action history for one call.\<close>

definition historyEntry :: "'w Env \<Rightarrow> FunctionCall \<Rightarrow> ToolResult \<Rightarrow> string" where
  "historyEntry env call funcResult =
     ''- '' @ interpolate (call_name call) @ ''(''
     @ join '', '' (map (\<lambda>k. k @ ''='' @ interpolate (map_of (argsOrEmpty call) k))
                       (map fst (argsOrEmpty call)))
     @ '') => '' @ stringify env funcResult"

text \<open>
  The loop over the function calls of a response: each call is executed, answered and
  recorded in the action history.
\<close>

fun executeVisualCalls ::
  "'w Env \<Rightarrow> FunctionCall list \<Rightarrow> Part list \<Rightarrow> string list \<Rightarrow> 'w Sys
     \<Rightarrow> Part list \<times> string list \<times> 'w Sys" where
  "executeVisualCalls env [] functionResponses actionHistory sys =
     (functionResponses, actionHistory, sys)"
| "executeVisualCalls env (call # calls) functionResponses actionHistory sys =
     (case visualTool env call sys of
        (funcResult, sys1) \<Rightarrow>
          executeVisualCalls env calls
            (functionResponses @ [VisualResponse (call_name call) funcResult])
            (actionHistory @ [historyEntry env call funcResult]) sys1)"

definition completedOutput :: "Content \<Rightarrow> string list \<Rightarrow> string" where
  "completedOutput response actionHistory =
     (let text = orElse (case parts response of
                           None \<Rightarrow> None
                         | Some ps \<Rightarrow> Some (concat (map (\<lambda>p. orElse (part_text p) []) ps))) ''Done''
      in ''Visual Agent Completed.'' @ nl @ ''Final Message: '' @ text @ nl
         @ ''Actions Taken:'' @ nl @ join nl actionHistory)"

definition maxStepsOutput :: "string list \<Rightarrow> string" where
  "maxStepsOutput actionHistory =
     ''Visual Agent reached max steps.'' @ nl @ ''Actions Taken:'' @ nl @ join nl actionHistory"

text \<open>
  One pass through the body of the \<open>for\<close> loop: it throws (the model call is outside
  every \<open>try\<close> of \<open>runVisualDelegate\<close>), it leaves the loop (\<open>break\<close>: no response),
  it returns (no function call in the response), or it goes on with the new contents
  and action history.
\<close>

datatype 'w VisualStep =
    StepThrows string "'w Sys"
  | StepNoResponse "'w Sys"
  | StepCompleted string "'w Sys"
  | StepActed "Content list" "string list" "'w Sys"

definition visualStep ::
  "'w Env \<Rightarrow> nat \<Rightarrow> Content list \<Rightarrow> string list \<Rightarrow> 'w Sys \<Rightarrow> 'w VisualStep" where
  "visualStep env i contents actionHistory sys =
     (case extCall (GenerateContent contents) (generateContent env contents) sys of
        (Inl e, sys1) \<Rightarrow> StepThrows e sys1
      | (Inr None, sys1) \<Rightarrow> StepNoResponse sys1
      | (Inr (Some response), sys1) \<Rightarrow>
          (let sys2 = logVisualTurn env i response sys1;
               functionCalls = functionCallsOf (parts response)
           in if functionCalls = [] then
                StepCompleted (completedOutput response actionHistory) (invalidateMcpCache env sys2)
              else
                (case executeVisualCalls env functionCalls [] actionHistory sys2 of
                   (functionResponses, actionHistory1, sys3) \<Rightarrow>
                     (case captureScreenshot env sys3 of
                        (newScreenshot, sys4) \<Rightarrow>
                          StepActed
                            (contents @ [response,
                               Content ''user''
                                 (Some (functionResponses
                                        @ (if newScreenshot \<noteq> [] then [InlineData newScreenshot] else [])))])
                            actionHistory1 sys4))))"

text \<open>
  The \<open>for\<close> loop with what follows it. The result is \<open>Inr\<close> of the \<open>output\<close> returned or
  \<open>Inl\<close> of what was thrown, together with the final action history.
\<close>

function visualLoop ::
  "'w Env \<Rightarrow> nat \<Rightarrow> Content list \<Rightarrow> string list \<Rightarrow> 'w Sys
     \<Rightarrow> (string + string) \<times> string list \<times> 'w Sys" where
  "visualLoop env i contents actionHistory sys =
     (if i < VISUAL_MAX_STEPS then
        (case visualStep env i contents actionHistory sys of
           StepThrows e sys1 \<Rightarrow> (Inl e, actionHistory, sys1)
         | StepNoResponse sys1 \<Rightarrow>
             (Inr (maxStepsOutput actionHistory), actionHistory, invalidateMcpCache env sys1)
         | StepCompleted out sys1 \<Rightarrow> (Inr out, actionHistory, sys1)
         | StepActed contents1 actionHistory1 sys1 \<Rightarrow>
             visualLoop env (i + 1) contents1 actionHistory1 sys1)
      else (Inr (maxStepsOutput actionHistory), actionHistory, invalidateMcpCache env sys))"
  by pat_completeness auto
termination
  by (relation "measure (\<lambda>(env, i, contents, actionHistory, sys). VISUAL_MAX_STEPS - i)") auto

declare visualLoop.simps [simp del]

definition initialContents :: "string \<Rightarrow> string \<Rightarrow> Content list" where
  "initialContents instruction initialScreenshot =
     [Content ''user''
        (Some (Text (visualSystemInstruction instruction) False
               # (if initialScreenshot \<noteq> [] then [InlineData initialScreenshot] else [])))]"

definition runVisualDelegate ::
  "'w Env \<Rightarrow> string \<Rightarrow> string \<Rightarrow> 'w Sys \<Rightarrow> (string + string) \<times> 'w Sys" where
  "runVisualDelegate env instruction initialScreenshot sys =
     (case visualLoop env 0 (initialContents instruction initialScreenshot) [] sys of
        (result, actionHistory, sys1) \<Rightarrow> (result, sys1))"




subsection \<open>\<open>runTask\<close>: capturing the state\<close>

text \<open>
  The snapshot text: the \<open>text\<close> items of the content, concatenated. Any failure inside
  the \<open>try\<close> (getting the client, the call itself) leaves \<open>domSnapshot\<close> empty.
\<close>

definition snapshotText :: "McpItem list option \<Rightarrow> string" where
  "snapshotText snapContent =
     (case snapContent of
        None \<Rightarrow> []
      | Some items \<Rightarrow>
          concat (map (\<lambda>p. orElse (item_text p) []) (filter (\<lambda>p. item_type p = ''text'') items)))"

definition captureState :: "'w Env \<Rightarrow> 'w Sys \<Rightarrow> string \<times> 'w Sys" where
  "captureState env sys =
     (case extCall GetMcpClient (getMcpClient env) sys of
        (Some stateError, sys1) \<Rightarrow> ([], sys1)
      | (None, sys1) \<Rightarrow>
          (case extCall (CallTool ''take_snapshot'' [(''verbose'', ''false'')])
                  (callTool env ''take_snapshot'' [(''verbose'', ''false'')]) sys1 of
             (Inl stateError, sys2) \<Rightarrow> ([], sys2)
           | (Inr snapContent, sys2) \<Rightarrow> (snapshotText snapContent, sys2)))"

definition stateParts :: "string \<Rightarrow> Part list" where
  "stateParts domSnapshot =
     (if domSnapshot \<noteq> [] then
        [Text (''<accessibility_tree>'' @ nl @ domSnapshot @ nl @ ''</accessibility_tree>'') False]
      else [])"

text \<open>\<open>const messageParts = [...stateParts, ...currentInputParts]\<close>.\<close>

definition messageParts :: "string \<Rightarrow> Part list \<Rightarrow> Part list" where
  "messageParts domSnapshot currentInputParts = stateParts domSnapshot @ currentInputParts"

subsection \<open>\<open>runTask\<close>: streaming the model\<close>

definition announceThought :: "'w Env \<Rightarrow> Part list option \<Rightarrow> 'w Sys \<Rightarrow> 'w Sys" where
  "announceThought env ps sys =
     (case ps of
        None \<Rightarrow> sys
      | Some ps' \<Rightarrow>
          (case find part_thought ps' of
             None \<Rightarrow> sys
           | Some thoughtPart \<Rightarrow>
               (let subject = parseThought env (orElse (part_text thoughtPart) [])
                in if subject \<noteq> [] then printOutput env (thoughtBalloon @ '' '' @ subject) sys
                   else sys)))"

definition announceCall :: "'w Env \<Rightarrow> FunctionCall \<Rightarrow> 'w Sys \<Rightarrow> 'w Sys" where
  "announceCall env call sys =
     (let instruction = (case call_args call of None \<Rightarrow> None | Some a \<Rightarrow> map_of a ''instruction'')
      in if call_name call = Some ''delegate_to_visual_agent'' \<and> truthy instruction then
           printOutput env (robotFace @ '' Visual Agent: '' @ orElse instruction []) sys
         else
           printOutput env (wrench @ '' Generating tool call: '' @ interpolate (call_name call) @ ''...'') sys)"

definition processChunk ::
  "'w Env \<Rightarrow> Chunk \<Rightarrow> FunctionCall list \<Rightarrow> 'w Sys \<Rightarrow> FunctionCall list \<times> 'w Sys" where
  "processChunk env chunk functionCalls sys =
     (let sys1 = announceThought env (chunk_parts chunk) sys
      in case chunk_calls chunk of
           None \<Rightarrow> (functionCalls, sys1)
         | Some calls \<Rightarrow> (functionCalls @ calls, fold (announceCall env) calls sys1))"

definition awaitNext :: "'w Env \<Rightarrow> 'w Sys \<Rightarrow> 'w Sys" where
  "awaitNext env sys = sys\<lparr>world := streamNext env (world sys)\<rparr>"

text \<open>
  The \<open>for await\<close> loop over the events, with the failure the stream ends with (if any).
  A cancelled signal leaves the loop by \<open>break\<close>; what the stream would have thrown
  later is then never seen.
\<close>

fun consumeStream ::
  "'w Env \<Rightarrow> string option \<Rightarrow> StreamEvent list \<Rightarrow> FunctionCall list \<Rightarrow> 'w Sys
     \<Rightarrow> (string + FunctionCall list) \<times> 'w Sys" where
  "consumeStream env failure [] functionCalls sys =
     ((case failure of None \<Rightarrow> Inr functionCalls | Some e \<Rightarrow> Inl e), awaitNext env sys)"
| "consumeStream env failure (event # events) functionCalls sys =
     (let sys1 = awaitNext env sys
      in if aborted env (world sys1) then (Inr functionCalls, sys1)
         else (case event of
                 OtherEvent \<Rightarrow> consumeStream env failure events functionCalls sys1
               | CHUNK chunk \<Rightarrow>
                   (case processChunk env chunk functionCalls sys1 of
                      (functionCalls1, sys2) \<Rightarrow> consumeStream env failure events functionCalls1 sys2)))"

definition streamModel ::
  "'w Env \<Rightarrow> Part list \<Rightarrow> 'w Sys \<Rightarrow> (string + FunctionCall list) \<times> 'w Sys" where
  "streamModel env message sys =
     (case extCall (SendMessageStream message) (sendMessageStream env message) sys of
        ((events, failure), sys1) \<Rightarrow> consumeStream env failure events [] sys1)"


subsection \<open>\<open>runTask\<close>: executing the tools\<close>

text \<open>The variables of \<open>runTask\<close> that the loop body writes.\<close>

record Locals =
  currentInputParts :: "Part list"
  taskCompleted :: bool
  taskSummary :: string

text \<open>
  The cases of the \<open>switch\<close> that have the same shape,
  \<open>(await this.browserTools.method(fnArgs[k1], ...)).output || ''\<close>: the name of the case,
  the method and the keys of its arguments.
\<close>

definition directHandlers :: "(string \<times> ToolMethod \<times> string list) list" where
  "directHandlers =
     [(''navigate'', navigate, [''url'']),
      (''click'', click, [''uid'', ''dblClick'']),
      (''hover'', hover, [''uid'']),
      (''fill'', fill, [''uid'', ''value'']),
      (''fill_form'', fillForm, [''elements'']),
      (''upload_file'', uploadFile, [''uid'', ''filePath'']),
      (''get_element_text'', getElementText, [''uid'']),
      (''wait_for'', waitFor, [''text'']),
      (''handle_dialog'', handleDialog, [''action'', ''promptText'']),
      (''evaluate_script'', evaluateScript, [''function'']),
      (''press_key'', pressKey, [''key'']),
      (''drag'', drag, [''from_uid'', ''to_uid'']),
      (''close_page'', closePage, []),
      (''take_snapshot'', takeSnapshot, [''verbose''])]"

text \<open>The names declared in \<open>semanticTools[0].functionDeclarations\<close>.\<close>

definition semanticToolNames :: "string list" where
  "semanticToolNames =
     [''navigate'', ''click'', ''hover'', ''fill'', ''fill_form'', ''upload_file'',
      ''get_element_text'', ''scroll_document'', ''pagedown'', ''pageup'', ''take_snapshot'',
      ''wait_for'', ''handle_dialog'', ''evaluate_script'', ''press_key'', ''open_web_browser'',
      ''complete_task'', ''delegate_to_visual_agent'']"

definition notImplemented :: "string \<Rightarrow> string" where
  "notImplemented fnName = ''Tool '' @ fnName @ '' not implemented in agent loop.''"

text \<open>
  The cases of the \<open>switch\<close> on the name of the call, inside its \<open>try\<close>: \<open>Inl\<close> is an
  exception on its way to the \<open>catch\<close>, \<open>Inr\<close> the value of \<open>functionResponse\<close>.
\<close>

text \<open>A case of the table: \<open>(await this.browserTools.m(...)).output || ''\<close>.\<close>

definition directCase ::
  "'w Env \<Rightarrow> ToolMethod \<Rightarrow> string option list \<Rightarrow> 'w Sys \<Rightarrow> (string + ResponseText) \<times> 'w Sys" where
  "directCase env m arguments sys =
     (case extCall (BrowserTool m arguments) (browserTool env m arguments) sys of
        (Inl e, sys1) \<Rightarrow> (Inl e, sys1)
      | (Inr res, sys1) \<Rightarrow> (Inr (Str (orElse (res_output res) [])), sys1))"

text \<open>\<open>case 'scroll_document'\<close>: \<open>res.output || res.error || ''\<close>.\<close>

definition scrollDocumentCase ::
  "'w Env \<Rightarrow> Args \<Rightarrow> 'w Sys \<Rightarrow> (string + ResponseText) \<times> 'w Sys" where
  "scrollDocumentCase env fnArgs sys =
     (case extCall (BrowserTool scrollDocument (map (map_of fnArgs) [''direction'', ''amount'']))
             (browserTool env scrollDocument (map (map_of fnArgs) [''direction'', ''amount''])) sys of
        (Inl e, sys1) \<Rightarrow> (Inl e, sys1)
      | (Inr res, sys1) \<Rightarrow>
          (Inr (Str (orElse (res_output res) (orElse (res_error res) []))), sys1))"

text \<open>\<open>case 'complete_task'\<close>: the one case that writes the variables of \<open>runTask\<close>.\<close>

definition completeTaskCase ::
  "'w Env \<Rightarrow> Args \<Rightarrow> Locals \<Rightarrow> 'w Sys \<Rightarrow> (string + ResponseText) \<times> Locals \<times> 'w Sys" where
  "completeTaskCase env fnArgs loc sys =
     (let summary = orElse (map_of fnArgs ''summary'') ''Task completed''
      in (Inr (Str summary), loc\<lparr>taskCompleted := True, taskSummary := summary\<rparr>,
          printOutput env (checkMark @ '' '' @ summary) sys))"

text \<open>\<open>case 'delegate_to_visual_agent'\<close>.\<close>

definition delegateCase ::
  "'w Env \<Rightarrow> Args \<Rightarrow> 'w Sys \<Rightarrow> (string + ResponseText) \<times> 'w Sys" where
  "delegateCase env fnArgs sys =
     (case captureScreenshot env sys of
        (screen, sys1) \<Rightarrow>
          (case runVisualDelegate env (orElse (map_of fnArgs ''instruction'') []) screen sys1 of
             (Inl e, sys2) \<Rightarrow> (Inl e, sys2)
           | (Inr visualRes, sys2) \<Rightarrow> (Inr (VisualRes visualRes), sys2)))"

text \<open>
  \<open>default\<close>, for a name that \<open>semanticTools\<close> declares: the call goes to the MCP client
  as it is, and the texts of the result are joined by newlines.
\<close>

definition passthroughCase ::
  "'w Env \<Rightarrow> string \<Rightarrow> Args \<Rightarrow> 'w Sys \<Rightarrow> (string + ResponseText) \<times> 'w Sys" where
  "passthroughCase env fnName fnArgs sys =
     (case extCall GetMcpClient (getMcpClient env) sys of
        (Some e, sys1) \<Rightarrow> (Inl e, sys1)
      | (None, sys1) \<Rightarrow>
          (case extCall (CallTool fnName fnArgs) (callTool env fnName fnArgs) sys1 of
             (Inl e, sys2) \<Rightarrow> (Inl e, sys2)
           | (Inr content, sys2) \<Rightarrow>
               (Inr (Str (case content of
                            None \<Rightarrow> []
                          | Some items \<Rightarrow> join nl (map (\<lambda>c. orElse (item_text c) []) items))),
                sys2)))"

text \<open>
  \<open>default\<close>, for any other name: the method of that name of the browser tools, called
  with the values of the arguments, inside a \<open>try\<close> of its own.
\<close>

definition legacyCase ::
  "'w Env \<Rightarrow> string \<Rightarrow> Args \<Rightarrow> 'w Sys \<Rightarrow> (string + ResponseText) \<times> 'w Sys" where
  "legacyCase env fnName fnArgs sys =
     (case extCall (BrowserToolByName fnName (map snd fnArgs))
             (browserToolByName env fnName (map snd fnArgs)) sys of
        (Inl e, sys1) \<Rightarrow> (Inr (Str (notImplemented fnName)), sys1)
      | (Inr None, sys1) \<Rightarrow> (Inr (Str (notImplemented fnName)), sys1)
      | (Inr (Some res), sys1) \<Rightarrow>
          (Inr (Str (orElse (res_output res) (orElse (res_error res) []))), sys1))"

text \<open>A case that leaves the variables of \<open>runTask\<close> as they are.\<close>

definition keeping :: "Locals \<Rightarrow> 'a \<times> 'w Sys \<Rightarrow> 'a \<times> Locals \<times> 'w Sys" where
  "keeping loc rs = (fst rs, loc, snd rs)"

definition switchTool ::
  "'w Env \<Rightarrow> string \<Rightarrow> Args \<Rightarrow> Locals \<Rightarrow> 'w Sys \<Rightarrow> (string + ResponseText) \<times> Locals \<times> 'w Sys" where
  "switchTool env fnName fnArgs loc sys =
     (case map_of directHandlers fnName of
        Some (m, keys) \<Rightarrow> keeping loc (directCase env m (map (map_of fnArgs) keys) sys)
      | None \<Rightarrow>
          if fnName = ''scroll_document'' then keeping loc (scrollDocumentCase env fnArgs sys)
          else if fnName = ''complete_task'' then completeTaskCase env fnArgs loc sys
          else if fnName = ''delegate_to_visual_agent'' then keeping loc (delegateCase env fnArgs sys)
          else if fnName \<in> set semanticToolNames then keeping loc (passthroughCase env fnName fnArgs sys)
          else keeping loc (legacyCase env fnName fnArgs sys))"

text \<open>The \<open>catch\<close> around the \<open>switch\<close>: an exception becomes the text of the response.\<close>

definition executeTool ::
  "'w Env \<Rightarrow> string \<Rightarrow> Args \<Rightarrow> Locals \<Rightarrow> 'w Sys \<Rightarrow> ResponseText \<times> Locals \<times> 'w Sys" where
  "executeTool env fnName fnArgs loc sys =
     (case switchTool env fnName fnArgs loc sys of
        (Inl e, loc1, sys1) \<Rightarrow> (Str (''Error executing '' @ fnName @ '': '' @ e), loc1, sys1)
      | (Inr functionResponse, loc1, sys1) \<Rightarrow> (functionResponse, loc1, sys1))"

text \<open>
  The body of the loop over the function calls, after its cancellation check: a call
  without a name is skipped with a warning, any other call is executed and its response
  is pushed to \<open>currentInputParts\<close>.
\<close>

definition namelessWarning :: string where
  "namelessWarning = crossMark @ '' Warning: Received function call without name''"

definition dispatchCall :: "'w Env \<Rightarrow> FunctionCall \<Rightarrow> Locals \<Rightarrow> 'w Sys \<Rightarrow> Locals \<times> 'w Sys" where
  "dispatchCall env call loc sys =
     (case call_name call of
        None \<Rightarrow> (loc, printOutput env namelessWarning sys)
      | Some fnName \<Rightarrow>
          if fnName = [] then (loc, printOutput env namelessWarning sys)
          else
            (case executeTool env fnName (argsOrEmpty call) loc
                    (printOutput env (wrench @ '' Executing '' @ fnName @ ''(''
                                       @ stringifyArgs env (argsOrEmpty call) @ '')'') sys) of
               (functionResponse, loc1, sys1) \<Rightarrow>
                 (loc1\<lparr>currentInputParts :=
                          currentInputParts loc1 @ [FunctionResponse fnName functionResponse]\<rparr>,
                  sys1)))"

fun dispatchCalls :: "'w Env \<Rightarrow> FunctionCall list \<Rightarrow> Locals \<Rightarrow> 'w Sys \<Rightarrow> Locals \<times> 'w Sys" where
  "dispatchCalls env [] loc sys = (loc, sys)"
| "dispatchCalls env (call # calls) loc sys =
     (if aborted env (world sys) then (loc, printOutput env cancelledNotice sys)
      else (case dispatchCall env call loc sys of
              (loc1, sys1) \<Rightarrow> dispatchCalls env calls loc1 sys1))"

subsection \<open>\<open>runTask\<close>: the loop\<close>

text \<open>How a pass through the body of the \<open>while\<close> loop ends.\<close>

datatype TurnResult = Continue | Break | Return string

definition rePrompt :: string where
  "rePrompt = ''You must call the complete_task tool to finish. If the task is done, call complete_task with a summary. If you cannot complete the task, call complete_task explaining why.''"

definition stoppedWarning :: string where
  "stoppedWarning = warningSign @ ''  Agent stopped without calling complete_task. Prompting to complete...''"

text \<open>\<open>if (functionCalls.length > 0) { ... } else { ... }\<close>.\<close>

definition executeTools ::
  "'w Env \<Rightarrow> FunctionCall list \<Rightarrow> Locals \<Rightarrow> 'w Sys \<Rightarrow> TurnResult \<times> Locals \<times> 'w Sys" where
  "executeTools env functionCalls loc sys =
     (if functionCalls \<noteq> [] then
        (case dispatchCalls env functionCalls (loc\<lparr>currentInputParts := []\<rparr>) sys of
           (loc1, sys1) \<Rightarrow>
             if taskCompleted loc1 then (Break, loc1, sys1) else (Continue, loc1, sys1))
      else
        (Continue, loc\<lparr>currentInputParts := [Text rePrompt False]\<rparr>,
         printOutput env stoppedWarning sys))"

text \<open>
  The body of the \<open>while\<close> loop in two parts. The first part goes from the top of the
  body to the end of the \<open>try\<close> around the model call: it leaves the loop (\<open>Inl Break\<close>:
  the signal is aborted at one of the three checks), returns from \<open>runTask\<close>
  (\<open>Inl (Return msg)\<close>: the \<open>catch\<close>), or hands on the function calls of the model. In
  the \<open>catch\<close>, the test for the text \<open>Model stream ended with empty response text\<close>
  guards nothing but a call of \<open>debugLogger\<close>; both of its branches reach
  \<open>return msg\<close>.
\<close>

definition askModel ::
  "'w Env \<Rightarrow> Locals \<Rightarrow> 'w Sys \<Rightarrow> (TurnResult + FunctionCall list) \<times> 'w Sys" where
  "askModel env loc sys =
     (if aborted env (world sys) then (Inl Break, printOutput env cancelledNotice sys)
      else
        (case captureState env sys of
           (domSnapshot, sys1) \<Rightarrow>
             if aborted env (world sys1) then (Inl Break, printOutput env cancelledNotice sys1)
             else
               (case streamModel env (messageParts domSnapshot (currentInputParts loc)) sys1 of
                  (Inl e, sys2) \<Rightarrow>
                    (Inl (Return (''Error calling model: '' @ e)),
                     printOutput env (''Error calling model: '' @ e) sys2)
                | (Inr functionCalls, sys2) \<Rightarrow>
                    if aborted env (world sys2) then
                      (Inl Break, printOutput env cancelledNotice sys2)
                    else (Inr functionCalls, sys2))))"

text \<open>The whole body, up to \<open>iterationCount++\<close>.\<close>

definition turn :: "'w Env \<Rightarrow> Locals \<Rightarrow> 'w Sys \<Rightarrow> TurnResult \<times> Locals \<times> 'w Sys" where
  "turn env loc sys =
     (case askModel env loc sys of
        (Inl r, sys1) \<Rightarrow> (r, loc, sys1)
      | (Inr functionCalls, sys1) \<Rightarrow> executeTools env functionCalls loc sys1)"

definition MAX_ITERATIONS :: nat where
  "MAX_ITERATIONS = 20"

text \<open>\<open>return taskSummary || 'Task finished'\<close>.\<close>

definition taskResult :: "Locals \<Rightarrow> string" where
  "taskResult loc = (if taskSummary loc \<noteq> [] then taskSummary loc else ''Task finished'')"

function runLoop ::
  "'w Env \<Rightarrow> nat \<Rightarrow> Locals \<Rightarrow> 'w Sys \<Rightarrow> string \<times> Locals \<times> 'w Sys" where
  "runLoop env iterationCount loc sys =
     (if iterationCount < MAX_ITERATIONS then
        (case turn env loc sys of
           (Continue, loc1, sys1) \<Rightarrow> runLoop env (iterationCount + 1) loc1 sys1
         | (Break, loc1, sys1) \<Rightarrow> (taskResult loc1, loc1, sys1)
         | (Return msg, loc1, sys1) \<Rightarrow> (msg, loc1, sys1))
      else (taskResult loc, loc, sys))"
  by pat_completeness auto
termination
  by (relation "measure (\<lambda>(env, iterationCount, loc, sys). MAX_ITERATIONS - iterationCount)") auto

declare runLoop.simps [simp del]

subsection \<open>\<open>runTask\<close>\<close>

definition connectFailed :: "'w Env \<Rightarrow> string \<Rightarrow> 'w Sys \<Rightarrow> (string + string) \<times> 'w Sys" where
  "connectFailed env e sys =
     (Inr (''Error: Failed to connect to browser: '' @ e),
      printOutput env (''Error: Failed to connect to browser: '' @ e) sys)"

definition initialLocals :: "string \<Rightarrow> Locals" where
  "initialLocals prompt =
     \<lparr>currentInputParts = [Text (''Task: '' @ prompt) False], taskCompleted = False, taskSummary = []\<rparr>"

text \<open>
  The result of \<open>runTask\<close> is \<open>Inr\<close> of the string it returns, or \<open>Inl\<close> of an exception
  that leaves it: the second \<open>updateBorderOverlay\<close> call stands outside every \<open>try\<close>.
\<close>

definition runTask :: "'w Env \<Rightarrow> string \<Rightarrow> 'w \<Rightarrow> (string + string) \<times> 'w Sys" where
  "runTask env prompt w =
     (case extCall EnsureConnection (ensureConnection env) \<lparr>world = w, trace = []\<rparr> of
        (Some e, sys1) \<Rightarrow> connectFailed env e sys1
      | (None, sys1) \<Rightarrow>
          (case extCall UpdateBorderOverlay (updateBorderOverlay env) sys1 of
             (Some e, sys2) \<Rightarrow> connectFailed env e sys2
           | (None, sys2) \<Rightarrow>
               (case extCall UpdateBorderOverlay (updateBorderOverlay env) sys2 of
                  (Some e, sys3) \<Rightarrow> (Inl e, sys3)
                | (None, sys3) \<Rightarrow>
                    (case runLoop env 0 (initialLocals prompt) sys3 of
                       (result, loc, sys4) \<Rightarrow> (Inr result, sys4)))))"


section \<open>Observing a run\<close>

text \<open>The calls of the model and the snapshot calls of the state capture in a trace.\<close>

fun isModelCall :: "Event \<Rightarrow> bool" where
  "isModelCall (SendMessageStream message) = True"
| "isModelCall e = False"

fun isSnapshotCall :: "Event \<Rightarrow> bool" where
  "isSnapshotCall (CallTool n a) = (n = ''take_snapshot'')"
| "isSnapshotCall e = False"

text \<open>
  The events that executing tools adds to a trace: anything but a call of the model, a
  \<open>take_snapshot\<close> call to the MCP client and the calls before the loop.
\<close>

fun isToolEvent :: "Event \<Rightarrow> bool" where
  "isToolEvent (SendMessageStream message) = False"
| "isToolEvent (CallTool n a) = (n \<noteq> ''take_snapshot'')"
| "isToolEvent EnsureConnection = False"
| "isToolEvent UpdateBorderOverlay = False"
| "isToolEvent e = True"

text \<open>\<open>grows P sys sys'\<close>: the trace of \<open>sys'\<close> is the trace of \<open>sys\<close> with events of kind \<open>P\<close> added.\<close>

definition grows :: "(Event \<Rightarrow> bool) \<Rightarrow> 'w Sys \<Rightarrow> 'w Sys \<Rightarrow> bool" where
  "grows P sys sys' = (\<exists>es. trace sys' = trace sys @ es \<and> list_all P es)"

text \<open>
  The states in which the turns of a run of \<open>runTask\<close> start: \<open>atTurn env prompt w n loc sys\<close>
  when the run on \<open>prompt\<close> from the world \<open>w\<close> enters the loop and comes to the test of
  the \<open>while\<close> with \<open>iterationCount = n\<close>, the variables \<open>loc\<close> and the world and trace
  \<open>sys\<close>.
\<close>

inductive atTurn :: "'w Env \<Rightarrow> string \<Rightarrow> 'w \<Rightarrow> nat \<Rightarrow> Locals \<Rightarrow> 'w Sys \<Rightarrow> bool"
  for env :: "'w Env" and prompt :: string and w :: 'w where
  start:
    "extCall EnsureConnection (ensureConnection env) \<lparr>world = w, trace = []\<rparr> = (None, sys1) \<Longrightarrow>
     extCall UpdateBorderOverlay (updateBorderOverlay env) sys1 = (None, sys2) \<Longrightarrow>
     extCall UpdateBorderOverlay (updateBorderOverlay env) sys2 = (None, sys3) \<Longrightarrow>
     atTurn env prompt w 0 (initialLocals prompt) sys3"
| step:
    "atTurn env prompt w n loc sys \<Longrightarrow> n < MAX_ITERATIONS \<Longrightarrow>
     turn env loc sys = (Continue, loc1, sys1) \<Longrightarrow>
     atTurn env prompt w (n + 1) loc1 sys1"

text \<open>
  The signal is not aborted at any of the checks that precede the dispatch of the calls.
\<close>

fun notCancelledDuring :: "'w Env \<Rightarrow> FunctionCall list \<Rightarrow> Locals \<Rightarrow> 'w Sys \<Rightarrow> bool" where
  "notCancelledDuring env [] loc sys = True"
| "notCancelledDuring env (call # calls) loc sys =
     (\<not> aborted env (world sys) \<and>
      (case dispatchCall env call loc sys of
         (loc1, sys1) \<Rightarrow> notCancelledDuring env calls loc1 sys1))"

text \<open>The calls that have a name, and the names of the function responses among parts.\<close>

definition hasName :: "FunctionCall \<Rightarrow> bool" where
  "hasName call = truthy (call_name call)"

definition calledNames :: "FunctionCall list \<Rightarrow> string list" where
  "calledNames calls = map (\<lambda>c. orElse (call_name c) []) (filter hasName calls)"


text \<open>What \<open>complete_task\<close> takes as the summary of a call: \<open>fnArgs['summary'] || 'Task completed'\<close>.\<close>

definition isCompleteTask :: "FunctionCall \<Rightarrow> bool" where
  "isCompleteTask call = (call_name call = Some ''complete_task'')"

definition summaryOf :: "FunctionCall \<Rightarrow> string" where
  "summaryOf call = orElse (map_of (argsOrEmpty call) ''summary'') ''Task completed''"

text \<open>The payload that a turn hands to \<open>sendMessageStream\<close>, when it gets that far.\<close>

definition turnPayload :: "'w Env \<Rightarrow> Locals \<Rightarrow> 'w Sys \<Rightarrow> Part list" where
  "turnPayload env loc sys = messageParts (fst (captureState env sys)) (currentInputParts loc)"

section \<open>Concrete environments\<close>

text \<open>
  A world that is a counter, and collaborators that always succeed: the model answers with
  an empty stream, every browser tool with \<open>{output: 'ok'}\<close>. The environments below
  change one or two collaborators of it; what the counter counts is said with each.
\<close>

definition baseEnv :: "nat Env" where
  "baseEnv =
     \<lparr>printOutputGiven = True,
      aborted = (\<lambda>w. False),
      ensureConnection = (\<lambda>w. (None, w)),
      updateBorderOverlay = (\<lambda>w. (None, w)),
      getMcpClient = (\<lambda>w. (None, w)),
      callTool = (\<lambda>n a w. (Inr (Some []), w)),
      sendMessageStream = (\<lambda>message w. (([], None), w)),
      streamNext = (\<lambda>w. w),
      parseThought = (\<lambda>s. s),
      browserTool = (\<lambda>m a w. (Inr (ToolResult (Some ''ok'') None), w)),
      browserToolByName = (\<lambda>n a w. (Inr None, w)),
      generateContent = (\<lambda>contents w. (Inr None, w)),
      pageScreenshot = (\<lambda>w. (Inr ''img'', w)),
      stringify = (\<lambda>r. ''{}''),
      stringifyArgs = (\<lambda>a. ''{}'')\<rparr>"

text \<open>A stream of one chunk that carries function calls and no parts.\<close>

definition oneChunk :: "FunctionCall list \<Rightarrow> StreamEvent list \<times> string option" where
  "oneChunk calls = ([CHUNK (Chunk None (Some calls))], None)"

definition completeWith :: "Args \<Rightarrow> FunctionCall" where
  "completeWith a = FunctionCall (Some ''complete_task'') (Some a)"

text \<open>The model call throws the error of an empty response.\<close>

definition envEmptyStream :: "nat Env" where
  "envEmptyStream =
     baseEnv\<lparr>sendMessageStream :=
       (\<lambda>message w. (([], Some ''Model stream ended with empty response text''), w))\<rparr>"

text \<open>
  The world counts the calls of \<open>updateBorderOverlay\<close>; the second call (the one after the
  \<open>try\<close> of the connection) throws.
\<close>

definition envOverlayThrows :: "nat Env" where
  "envOverlayThrows =
     baseEnv\<lparr>updateBorderOverlay := (\<lambda>w. (if w = 1 then Some ''Target closed'' else None, w + 1))\<rparr>"

text \<open>
  The state in which the loop starts when the three calls before it succeed and leave
  the world at \<open>0\<close>.
\<close>

definition sysStart :: "nat Sys" where
  "sysStart = \<lparr>world = 0, trace = [EnsureConnection, UpdateBorderOverlay, UpdateBorderOverlay]\<rparr>"

definition treePart :: Part where
  "treePart = Text (''<accessibility_tree>'' @ nl @ ''tree'' @ nl @ ''</accessibility_tree>'') False"

text \<open>
  The snapshot is \<open>tree\<close>. The world counts the calls of the model: the first answer has
  no function call, every later one completes the task.
\<close>

definition envRePrompt :: "nat Env" where
  "envRePrompt =
     baseEnv
       \<lparr>callTool := (\<lambda>n a w. (Inr (Some [McpItem ''text'' (Some ''tree'')]), w)),
        sendMessageStream :=
          (\<lambda>message w. (if w = 0 then ([], None) else oneChunk [completeWith [(''summary'', ''Done'')]],
                         w + 1))\<rparr>"

definition navigateCall :: FunctionCall where
  "navigateCall = FunctionCall (Some ''navigate'') (Some [(''url'', ''https://example.com'')])"

definition clickCall :: FunctionCall where
  "clickCall = FunctionCall (Some ''click'') (Some [(''uid'', ''87_4'')])"


text \<open>
  The world counts the events awaited from the stream, and the signal is aborted from
  the second on: the one chunk of the answer, with its two function calls, is read, and
  the signal is aborted when the stream ends.
\<close>

definition envCancelAfterStream :: "nat Env" where
  "envCancelAfterStream =
     baseEnv
       \<lparr>aborted := (\<lambda>w. 2 \<le> w),
        sendMessageStream := (\<lambda>message w. (oneChunk [navigateCall, clickCall], w)),
        streamNext := (\<lambda>w. w + 1)\<rparr>"

text \<open>Getting the MCP client fails; the model completes the task at once.\<close>

definition envNoClient :: "nat Env" where
  "envNoClient =
     baseEnv
       \<lparr>getMcpClient := (\<lambda>w. (Some ''Not connected'', w)),
        sendMessageStream := (\<lambda>message w. (oneChunk [completeWith [(''summary'', ''Done'')]], w))\<rparr>"

text \<open>The model completes the task twice in one answer, with two summaries.\<close>

definition envTwoCompletions :: "nat Env" where
  "envTwoCompletions =
     baseEnv
       \<lparr>sendMessageStream :=
          (\<lambda>message w. (oneChunk [completeWith [(''summary'', ''Done'')],
                                   completeWith [(''summary'', ''Other'')]], w))\<rparr>"

text \<open>The model completes the task between two other calls of the same answer.\<close>

definition envCompleteAmongCalls :: "nat Env" where
  "envCompleteAmongCalls =
     baseEnv
       \<lparr>sendMessageStream :=
          (\<lambda>message w. (oneChunk [navigateCall, completeWith [(''summary'', ''Done'')], clickCall], w))\<rparr>"







section \<open>Properties\<close>

text \<open>The definitions that evaluating a concrete run unfolds.\<close>

lemmas run_defs =
  runTask_def extCall_def MAX_ITERATIONS_def turn_def askModel_def captureState_def
  snapshotText_def streamModel_def awaitNext_def printOutput_def initialLocals_def
  messageParts_def stateParts_def executeTools_def processChunk_def announceThought_def
  announceCall_def dispatchCall_def executeTool_def switchTool_def directHandlers_def
  semanticToolNames_def argsOrEmpty_def taskResult_def connectFailed_def Let_def
  keeping_def directCase_def scrollDocumentCase_def completeTaskCase_def
  oneChunk_def completeWith_def baseEnv_def

subsection \<open>Calls and messages in the trace\<close>

lemma extCall_result:
  assumes "extCall ev f sys = (r, sys')"
  shows "trace sys' = trace sys @ [ev]" and "f (world sys) = (r, world sys')"
  using assms by (auto simp: extCall_def split: prod.splits)

lemma trace_printOutput:
  "trace (printOutput env m sys) = trace sys @ (if printOutputGiven env then [Printed m] else [])"
  by (simp add: printOutput_def)

lemma world_printOutput [simp]: "world (printOutput env m sys) = world sys"
  by (simp add: printOutput_def)

lemma grows_refl [simp]: "grows P sys sys"
  by (simp add: grows_def)

lemma grows_trans: "grows P sys sys1 \<Longrightarrow> grows P sys1 sys2 \<Longrightarrow> grows P sys sys2"
  by (auto simp: grows_def)

lemma grows_extCall: "extCall ev f sys = (r, sys') \<Longrightarrow> P ev \<Longrightarrow> grows P sys sys'"
  by (simp add: grows_def extCall_result(1))

lemma grows_printOutput: "P (Printed m) \<Longrightarrow> grows P sys (printOutput env m sys)"
  by (simp add: grows_def trace_printOutput)

subsection \<open>The switch and the variables of \<open>runTask\<close>\<close>

lemma map_of_directHandlers_complete_task: "map_of directHandlers ''complete_task'' = None"
  by (simp add: directHandlers_def)

lemma switchTool_complete_task:
  "switchTool env ''complete_task'' fnArgs loc sys = completeTaskCase env fnArgs loc sys"
  by (simp add: switchTool_def map_of_directHandlers_complete_task)

lemma switchTool_other:
  assumes "fnName \<noteq> ''complete_task''" and "switchTool env fnName fnArgs loc sys = (r, loc1, sys1)"
  shows "loc1 = loc"
  using assms unfolding switchTool_def keeping_def
  by (simp split: option.splits prod.splits if_splits)

lemma executeTool_complete_task:
  "executeTool env ''complete_task'' fnArgs loc sys =
     (Str (orElse (map_of fnArgs ''summary'') ''Task completed''),
      loc\<lparr>taskCompleted := True, taskSummary := orElse (map_of fnArgs ''summary'') ''Task completed''\<rparr>,
      printOutput env (checkMark @ '' '' @ orElse (map_of fnArgs ''summary'') ''Task completed'') sys)"
  by (simp add: executeTool_def switchTool_complete_task completeTaskCase_def Let_def)

lemma executeTool_other:
  assumes "fnName \<noteq> ''complete_task''" and "executeTool env fnName fnArgs loc sys = (r, loc1, sys1)"
  shows "loc1 = loc"
proof -
  obtain x l s where sw: "switchTool env fnName fnArgs loc sys = (x, l, s)"
    by (metis prod_cases3)
  from switchTool_other[OF assms(1) sw] have "l = loc" .
  with sw assms(2) show ?thesis
    by (cases x) (simp_all add: executeTool_def)
qed

lemma hasName_iff: "hasName call \<longleftrightarrow> (\<exists>n. call_name call = Some n \<and> n \<noteq> [])"
  by (cases "call_name call") (simp_all add: hasName_def)

lemma calledNames_Nil [simp]: "calledNames [] = []"
  by (simp add: calledNames_def)


lemma isCompleteTask_hasName: "isCompleteTask call \<Longrightarrow> hasName call"
  by (simp add: isCompleteTask_def hasName_def)

lemma dispatchCall_nameless:
  "\<not> hasName call \<Longrightarrow> dispatchCall env call loc sys = (loc, printOutput env namelessWarning sys)"
  by (cases "call_name call") (simp_all add: dispatchCall_def hasName_def)

lemma dispatchCall_complete:
  assumes "isCompleteTask call" and "dispatchCall env call loc sys = (loc1, sys1)"
  shows "taskCompleted loc1" and "taskSummary loc1 = summaryOf call"
    and "currentInputParts loc1
           = currentInputParts loc @ [FunctionResponse ''complete_task'' (Str (summaryOf call))]"
  using assms
  by (auto simp: isCompleteTask_def dispatchCall_def executeTool_complete_task summaryOf_def)

lemma dispatchCall_other:
  assumes "hasName call" and "\<not> isCompleteTask call" and "dispatchCall env call loc sys = (loc1, sys1)"
  shows "taskCompleted loc1 = taskCompleted loc" and "taskSummary loc1 = taskSummary loc"
    and "\<exists>r. currentInputParts loc1
           = currentInputParts loc @ [FunctionResponse (orElse (call_name call) []) r]"
proof -
  from assms(1) obtain n where n: "call_name call = Some n" "n \<noteq> []"
    by (auto simp: hasName_iff)
  with assms(2) have ne: "n \<noteq> ''complete_task''"
    by (simp add: isCompleteTask_def)
  obtain r l s where ex: "executeTool env n (argsOrEmpty call) loc
      (printOutput env (wrench @ '' Executing '' @ n @ ''('' @ stringifyArgs env (argsOrEmpty call) @ '')'') sys) = (r, l, s)"
    by (metis prod_cases3)
  from executeTool_other[OF ne ex] have l: "l = loc" .
  from assms(3) n ex l have loc1: "loc1 = loc\<lparr>currentInputParts := currentInputParts loc @ [FunctionResponse n r]\<rparr>"
    by (simp add: dispatchCall_def)
  show "taskCompleted loc1 = taskCompleted loc" "taskSummary loc1 = taskSummary loc"
    by (simp_all add: loc1)
  show "\<exists>r. currentInputParts loc1 = currentInputParts loc @ [FunctionResponse (orElse (call_name call) []) r]"
    using n by (simp add: loc1)
qed


lemma dispatchCall_completion:
  assumes "dispatchCall env call loc sys = (loc1, sys1)"
  shows "(taskCompleted loc \<longrightarrow> taskCompleted loc1)
       \<and> (\<not> taskCompleted loc1 \<longrightarrow> taskSummary loc1 = taskSummary loc)
       \<and> (\<not> isCompleteTask call \<longrightarrow> taskCompleted loc1 = taskCompleted loc \<and> taskSummary loc1 = taskSummary loc)"
proof (cases "hasName call")
  case False
  then have "\<not> isCompleteTask call" using isCompleteTask_hasName by blast
  with False assms show ?thesis by (simp add: dispatchCall_nameless)
next
  case True
  show ?thesis
  proof (cases "isCompleteTask call")
    case True
    then show ?thesis using dispatchCall_complete(1)[OF True assms] by simp
  next
    case False
    with dispatchCall_other(1,2)[OF True False assms] show ?thesis by simp
  qed
qed

lemma dispatchCalls_cancelled:
  "aborted env (world sys) \<Longrightarrow> calls \<noteq> [] \<Longrightarrow>
   dispatchCalls env calls loc sys = (loc, printOutput env cancelledNotice sys)"
  by (cases calls) simp_all

lemma dispatchCalls_completion:
  "dispatchCalls env calls loc sys = (loc', sys') \<Longrightarrow>
   (taskCompleted loc \<longrightarrow> taskCompleted loc')
   \<and> (\<not> taskCompleted loc' \<longrightarrow> taskSummary loc' = taskSummary loc)"
proof (induction calls arbitrary: loc sys)
  case Nil
  then show ?case by simp
next
  case (Cons call calls)
  show ?case
  proof (cases "aborted env (world sys)")
    case True
    with Cons.prems show ?thesis by simp
  next
    case False
    obtain loc1 sys1 where d: "dispatchCall env call loc sys = (loc1, sys1)"
      by (metis surj_pair)
    with False Cons.prems have "dispatchCalls env calls loc1 sys1 = (loc', sys')" by simp
    from Cons.IH[OF this] dispatchCall_completion[OF d] show ?thesis by auto
  qed
qed


text \<open>What the calls of a turn do to the variables when none of them is cancelled.\<close>

lemma dispatchCalls_not_cancelled:
  "notCancelledDuring env calls loc sys \<Longrightarrow> dispatchCalls env calls loc sys = (loc', sys') \<Longrightarrow>
   taskCompleted loc' = (taskCompleted loc \<or> filter isCompleteTask calls \<noteq> [])
   \<and> taskSummary loc'
       = (if filter isCompleteTask calls = [] then taskSummary loc
          else summaryOf (last (filter isCompleteTask calls)))
   \<and> set (currentInputParts loc) \<subseteq> set (currentInputParts loc')
   \<and> (\<forall>c \<in> set calls. isCompleteTask c \<longrightarrow>
          FunctionResponse ''complete_task'' (Str (summaryOf c)) \<in> set (currentInputParts loc'))"
proof (induction calls arbitrary: loc sys)
  case Nil
  then show ?case by simp
next
  case (Cons call calls)
  from Cons.prems(1) have na: "\<not> aborted env (world sys)" by simp
  obtain loc1 sys1 where d: "dispatchCall env call loc sys = (loc1, sys1)"
    by (metis surj_pair)
  with Cons.prems na have rest: "notCancelledDuring env calls loc1 sys1"
    "dispatchCalls env calls loc1 sys1 = (loc', sys')" by simp_all
  note IH = Cons.IH[OF rest]
  have grow: "set (currentInputParts loc) \<subseteq> set (currentInputParts loc1)"
    using dispatchCall_complete(3)[OF _ d] dispatchCall_other(3)[OF _ _ d] dispatchCall_nameless[of call env loc sys] d
    by (cases "hasName call"; cases "isCompleteTask call") auto
  show ?case
  proof (cases "isCompleteTask call")
    case True
    note c = dispatchCall_complete[OF True d]
    have "FunctionResponse ''complete_task'' (Str (summaryOf call)) \<in> set (currentInputParts loc')"
      using c(3) IH by auto
    with True c IH grow show ?thesis by auto
  next
    case False
    with dispatchCall_completion[OF d] have "taskCompleted loc1 = taskCompleted loc" "taskSummary loc1 = taskSummary loc"
      by simp_all
    with False IH grow show ?thesis by auto
  qed
qed

subsection \<open>What the tools add to the trace\<close>

lemma grows_captureScreenshot:
  "captureScreenshot env sys = (s, sys') \<Longrightarrow> grows isToolEvent sys sys'"
  unfolding captureScreenshot_def
  by (auto split: prod.splits sum.splits intro: grows_extCall)

lemma grows_invalidateMcpCache: "grows isToolEvent sys (invalidateMcpCache env sys)"
proof -
  obtain r sys1 where g: "extCall GetMcpClient (getMcpClient env) sys = (r, sys1)"
    by (metis surj_pair)
  then have g1: "grows isToolEvent sys sys1" by (rule grows_extCall) simp
  show ?thesis
  proof (cases r)
    case (Some e)
    with g g1 show ?thesis by (simp add: invalidateMcpCache_def)
  next
    case None
    obtain r2 sys2 where c: "extCall (CallTool ''evaluate_script'' [(''function'', ''() => { return true; }'')])
                 (callTool env ''evaluate_script'' [(''function'', ''() => { return true; }'')]) sys1 = (r2, sys2)"
      by (metis surj_pair)
    then have "grows isToolEvent sys1 sys2" by (rule grows_extCall) simp
    with g1 have "grows isToolEvent sys sys2" by (rule grows_trans)
    with None g c show ?thesis by (simp add: invalidateMcpCache_def)
  qed
qed

lemma grows_logVisualTurn: "grows isToolEvent sys (logVisualTurn env i response sys)"
  by (simp add: logVisualTurn_def grows_printOutput)

lemma grows_visualToolCall:
  "visualToolCall env m call key keys sys = (r, sys') \<Longrightarrow> grows isToolEvent sys sys'"
  unfolding visualToolCall_def
  by (auto split: option.splits intro: grows_extCall)

lemma grows_visualSwitch:
  "visualSwitch env call sys = (r, sys') \<Longrightarrow> grows isToolEvent sys sys'"
  unfolding visualSwitch_def
  by (auto split: if_splits intro: grows_visualToolCall)

lemma grows_visualTool:
  "visualTool env call sys = (r, sys') \<Longrightarrow> grows isToolEvent sys sys'"
  unfolding visualTool_def
  by (auto split: prod.splits sum.splits intro: grows_visualSwitch)

lemma grows_executeVisualCalls:
  "executeVisualCalls env calls frs hist sys = (frs', hist', sys') \<Longrightarrow> grows isToolEvent sys sys'"
proof (induction calls arbitrary: frs hist sys)
  case Nil
  then show ?case by simp
next
  case (Cons call calls)
  obtain r sys1 where v: "visualTool env call sys = (r, sys1)" by (metis surj_pair)
  with Cons.prems have "executeVisualCalls env calls (frs @ [VisualResponse (call_name call) r])
      (hist @ [historyEntry env call r]) sys1 = (frs', hist', sys')" by simp
  from Cons.IH[OF this] grows_visualTool[OF v] show ?case by (blast intro: grows_trans)
qed

lemma grows_visualStep:
  "visualStep env i contents hist sys = StepThrows e sys' \<Longrightarrow> grows isToolEvent sys sys'"
  "visualStep env i contents hist sys = StepNoResponse sys' \<Longrightarrow> grows isToolEvent sys sys'"
  "visualStep env i contents hist sys = StepCompleted out sys' \<Longrightarrow> grows isToolEvent sys sys'"
  "visualStep env i contents hist sys = StepActed contents1 hist1 sys' \<Longrightarrow> grows isToolEvent sys sys'"
proof -
  obtain r sys1 where g: "extCall (GenerateContent contents) (generateContent env contents) sys = (r, sys1)"
    by (metis surj_pair)
  then have g1: "grows isToolEvent sys sys1" by (rule grows_extCall) simp
  show "visualStep env i contents hist sys = StepThrows e sys' \<Longrightarrow> grows isToolEvent sys sys'"
    using g g1 unfolding visualStep_def
    by (auto simp: Let_def split: sum.splits option.splits if_splits prod.splits)
  show "visualStep env i contents hist sys = StepNoResponse sys' \<Longrightarrow> grows isToolEvent sys sys'"
    using g g1 unfolding visualStep_def
    by (auto simp: Let_def split: sum.splits option.splits if_splits prod.splits)
  show "visualStep env i contents hist sys = StepCompleted out sys' \<Longrightarrow> grows isToolEvent sys sys'"
    using g g1 unfolding visualStep_def
    by (auto simp: Let_def split: sum.splits option.splits if_splits prod.splits
        intro: grows_trans[OF _ grows_invalidateMcpCache] grows_trans[OF _ grows_logVisualTurn])
  show "visualStep env i contents hist sys = StepActed contents1 hist1 sys' \<Longrightarrow> grows isToolEvent sys sys'"
    using g g1 unfolding visualStep_def
    by (auto simp: Let_def split: sum.splits option.splits if_splits prod.splits
        dest!: grows_executeVisualCalls grows_captureScreenshot
        intro: grows_trans[OF grows_trans[OF grows_trans[OF _ grows_logVisualTurn]]])
qed

lemma grows_visualLoop:
  "visualLoop env i contents hist sys = (r, hist', sys') \<Longrightarrow> grows isToolEvent sys sys'"
proof (induction env i contents hist sys rule: visualLoop.induct)
  case (1 env i contents actionHistory sys)
  show ?case
  proof (cases "i < VISUAL_MAX_STEPS")
    case False
    with "1.prems" show ?thesis
      by (auto simp: visualLoop.simps[of env i] grows_invalidateMcpCache)
  next
    case True
    show ?thesis
    proof (cases "visualStep env i contents actionHistory sys")
      case (StepThrows e sys1)
      with True "1.prems" grows_visualStep(1)[OF StepThrows] show ?thesis
        by (simp add: visualLoop.simps[of env i])
    next
      case (StepNoResponse sys1)
      with True "1.prems" grows_visualStep(2)[OF StepNoResponse] show ?thesis
        by (auto simp: visualLoop.simps[of env i] intro: grows_trans[OF _ grows_invalidateMcpCache])
    next
      case (StepCompleted out sys1)
      with True "1.prems" grows_visualStep(3)[OF StepCompleted] show ?thesis
        by (simp add: visualLoop.simps[of env i])
    next
      case (StepActed contents1 hist1 sys1)
      with True "1.prems" have "visualLoop env (i + 1) contents1 hist1 sys1 = (r, hist', sys')"
        by (simp add: visualLoop.simps[of env i])
      from "1.IH"[OF True StepActed this] grows_visualStep(4)[OF StepActed]
      show ?thesis by (rule grows_trans[rotated])
    qed
  qed
qed

lemma grows_runVisualDelegate:
  "runVisualDelegate env instruction shot sys = (r, sys') \<Longrightarrow> grows isToolEvent sys sys'"
  unfolding runVisualDelegate_def
  by (auto split: prod.splits dest: grows_visualLoop)

lemma grows_directCase:
  "directCase env m arguments sys = (r, sys') \<Longrightarrow> grows isToolEvent sys sys'"
  unfolding directCase_def
  by (auto split: prod.splits sum.splits intro: grows_extCall)

lemma grows_scrollDocumentCase:
  "scrollDocumentCase env fnArgs sys = (r, sys') \<Longrightarrow> grows isToolEvent sys sys'"
  unfolding scrollDocumentCase_def
  by (auto split: prod.splits sum.splits intro: grows_extCall)

lemma grows_completeTaskCase:
  "completeTaskCase env fnArgs loc sys = (r, loc', sys') \<Longrightarrow> grows isToolEvent sys sys'"
  unfolding completeTaskCase_def
  by (auto simp: Let_def intro: grows_printOutput)

lemma grows_delegateCase:
  "delegateCase env fnArgs sys = (r, sys') \<Longrightarrow> grows isToolEvent sys sys'"
  unfolding delegateCase_def
  by (auto split: prod.splits sum.splits dest!: grows_captureScreenshot grows_runVisualDelegate
      intro: grows_trans)

lemma grows_passthroughCase:
  assumes "fnName \<noteq> ''take_snapshot''" and "passthroughCase env fnName fnArgs sys = (r, sys')"
  shows "grows isToolEvent sys sys'"
proof -
  obtain c sys1 where g: "extCall GetMcpClient (getMcpClient env) sys = (c, sys1)"
    by (metis surj_pair)
  then have g1: "grows isToolEvent sys sys1" by (rule grows_extCall) simp
  show ?thesis
  proof (cases c)
    case (Some e)
    with g g1 assms(2) show ?thesis by (simp add: passthroughCase_def)
  next
    case None
    obtain r2 sys2 where c: "extCall (CallTool fnName fnArgs) (callTool env fnName fnArgs) sys1 = (r2, sys2)"
      by (metis surj_pair)
    have "isToolEvent (CallTool fnName fnArgs)" using assms(1) by simp
    with c have "grows isToolEvent sys1 sys2" by (rule grows_extCall)
    with g1 have "grows isToolEvent sys sys2" by (rule grows_trans)
    with None g c assms(2) show ?thesis by (cases r2) (auto simp: passthroughCase_def)
  qed
qed

lemma grows_legacyCase:
  "legacyCase env fnName fnArgs sys = (r, sys') \<Longrightarrow> grows isToolEvent sys sys'"
  unfolding legacyCase_def
  by (auto split: prod.splits sum.splits option.splits intro: grows_extCall)

lemma map_of_directHandlers_take_snapshot:
  "map_of directHandlers ''take_snapshot'' = Some (takeSnapshot, [''verbose''])"
  by (simp add: directHandlers_def)

lemma grows_switchTool:
  assumes "switchTool env fnName fnArgs loc sys = (r, loc', sys')"
  shows "grows isToolEvent sys sys'"
proof (cases "map_of directHandlers fnName")
  case (Some a)
  with assms show ?thesis
    by (cases a) (auto simp: switchTool_def keeping_def intro: grows_directCase[OF surjective_pairing])
next
  case None
  then have "fnName \<noteq> ''take_snapshot''"
    using map_of_directHandlers_take_snapshot by auto
  with None assms show ?thesis
    by (auto simp: switchTool_def keeping_def split: if_splits
        intro: grows_scrollDocumentCase[OF surjective_pairing] grows_completeTaskCase
          grows_delegateCase[OF surjective_pairing] grows_passthroughCase[OF _ surjective_pairing]
          grows_legacyCase[OF surjective_pairing])
qed

lemma grows_executeTool:
  "executeTool env fnName fnArgs loc sys = (r, loc', sys') \<Longrightarrow> grows isToolEvent sys sys'"
  unfolding executeTool_def
  by (auto split: prod.splits sum.splits dest: grows_switchTool)

lemma grows_dispatchCall:
  "dispatchCall env call loc sys = (loc', sys') \<Longrightarrow> grows isToolEvent sys sys'"
  unfolding dispatchCall_def
  by (auto split: option.splits if_splits prod.splits dest!: grows_executeTool
      intro: grows_printOutput grows_trans[OF grows_printOutput])

lemma grows_dispatchCalls:
  "dispatchCalls env calls loc sys = (loc', sys') \<Longrightarrow> grows isToolEvent sys sys'"
proof (induction calls arbitrary: loc sys)
  case Nil
  then show ?case by simp
next
  case (Cons call calls)
  show ?case
  proof (cases "aborted env (world sys)")
    case True
    with Cons.prems show ?thesis by (auto intro: grows_printOutput)
  next
    case False
    obtain loc1 sys1 where d: "dispatchCall env call loc sys = (loc1, sys1)"
      by (metis surj_pair)
    with False Cons.prems have "dispatchCalls env calls loc1 sys1 = (loc', sys')" by simp
    from grows_dispatchCall[OF d] Cons.IH[OF this] show ?thesis by (rule grows_trans)
  qed
qed

lemma grows_executeTools:
  "executeTools env calls loc sys = (r, loc', sys') \<Longrightarrow> grows isToolEvent sys sys'"
  unfolding executeTools_def
  by (auto split: if_splits prod.splits dest: grows_dispatchCalls intro: grows_printOutput)

subsection \<open>The state capture and the model call in the trace\<close>

lemma captureState_trace:
  "trace (snd (captureState env sys))
     = trace sys @ GetMcpClient
         # (if fst (getMcpClient env (world sys)) = None
            then [CallTool ''take_snapshot'' [(''verbose'', ''false'')]] else [])"
  unfolding captureState_def extCall_def
  by (auto split: prod.splits option.splits sum.splits)

lemma trace_awaitNext [simp]: "trace (awaitNext env sys) = trace sys"
  by (simp add: awaitNext_def)

lemma grows_awaitNext [simp]: "grows P sys (awaitNext env sys)"
  by (simp add: grows_def)

lemma grows_announceThought: "grows isToolEvent sys (announceThought env ps sys)"
  unfolding announceThought_def
  by (auto simp: Let_def split: option.splits intro: grows_printOutput)

lemma grows_announceCall: "grows isToolEvent sys (announceCall env call sys)"
  unfolding announceCall_def
  by (auto simp: Let_def intro: grows_printOutput)

lemma grows_fold_announceCall: "grows isToolEvent sys (fold (announceCall env) calls sys)"
proof (induction calls arbitrary: sys)
  case Nil
  then show ?case by simp
next
  case (Cons call calls)
  have "grows isToolEvent sys (announceCall env call sys)" by (rule grows_announceCall)
  moreover have "grows isToolEvent (announceCall env call sys) (fold (announceCall env) calls (announceCall env call sys))"
    by (rule Cons.IH)
  ultimately show ?case by (simp add: grows_trans)
qed

lemma grows_processChunk:
  "processChunk env chunk fc sys = (fc', sys') \<Longrightarrow> grows isToolEvent sys sys'"
  unfolding processChunk_def
  by (auto simp: Let_def split: option.splits
      intro: grows_announceThought grows_trans[OF grows_announceThought grows_fold_announceCall])

lemma grows_consumeStream:
  "consumeStream env failure events fc sys = (r, sys') \<Longrightarrow> grows isToolEvent sys sys'"
proof (induction events arbitrary: fc sys)
  case Nil
  then show ?case by auto
next
  case (Cons event events)
  show ?case
  proof (cases "aborted env (world (awaitNext env sys))")
    case True
    with Cons.prems show ?thesis by (auto simp: Let_def)
  next
    case False
    show ?thesis
    proof (cases event)
      case OtherEvent
      with False Cons.prems have "consumeStream env failure events fc (awaitNext env sys) = (r, sys')"
        by (simp add: Let_def)
      from Cons.IH[OF this] show ?thesis
        by (rule grows_trans[OF grows_awaitNext])
    next
      case (CHUNK chunk)
      obtain fc1 sys1 where p: "processChunk env chunk fc (awaitNext env sys) = (fc1, sys1)"
        by (metis surj_pair)
      with CHUNK False Cons.prems have "consumeStream env failure events fc1 sys1 = (r, sys')"
        by (simp add: Let_def)
      from Cons.IH[OF this] grows_processChunk[OF p] show ?thesis
        by (blast intro: grows_trans grows_awaitNext)
    qed
  qed
qed

lemma streamModel_trace:
  assumes "streamModel env message sys = (r, sys')"
  shows "\<exists>es. trace sys' = trace sys @ SendMessageStream message # es \<and> list_all isToolEvent es"
proof -
  obtain events failure sys1 where
    s: "extCall (SendMessageStream message) (sendMessageStream env message) sys = ((events, failure), sys1)"
    by (metis surj_pair)
  with assms have "consumeStream env failure events [] sys1 = (r, sys')"
    by (simp add: streamModel_def)
  from grows_consumeStream[OF this] extCall_result(1)[OF s] show ?thesis
    by (auto simp: grows_def)
qed

lemma toolEvents_no_calls:
  "list_all isToolEvent es \<Longrightarrow> filter isModelCall es = [] \<and> filter isSnapshotCall es = []"
proof (induction es)
  case Nil
  then show ?case by simp
next
  case (Cons e es)
  then show ?case by (cases e) auto
qed

lemma askModel_not_Continue: "askModel env loc sys = (Inl r, sys') \<Longrightarrow> r \<noteq> Continue"
  unfolding askModel_def
  by (auto split: if_splits prod.splits sum.splits)

text \<open>
  A turn that passes the check at its top: after the state capture comes either nothing
  but messages and tool events, or the model call and then messages and tool events.
\<close>

lemma askModel_trace:
  assumes "\<not> aborted env (world sys)" and "askModel env loc sys = (r, sys')"
  shows "\<exists>es. trace sys' = trace (snd (captureState env sys)) @ es
           \<and> (list_all isToolEvent es
              \<or> (\<exists>es'. es = SendMessageStream (turnPayload env loc sys) # es' \<and> list_all isToolEvent es'))"
proof -
  obtain dom sys1 where c: "captureState env sys = (dom, sys1)" by (metis surj_pair)
  show ?thesis
  proof (cases "aborted env (world sys1)")
    case True
    with assms c have "sys' = printOutput env cancelledNotice sys1"
      by (simp add: askModel_def)
    then show ?thesis using c by (auto simp: trace_printOutput)
  next
    case False
    obtain x sys2 where m: "streamModel env (messageParts dom (currentInputParts loc)) sys1 = (x, sys2)"
      by (metis surj_pair)
    from streamModel_trace[OF m] obtain es where
      es: "trace sys2 = trace sys1 @ SendMessageStream (messageParts dom (currentInputParts loc)) # es"
          "list_all isToolEvent es" by blast
    have p: "turnPayload env loc sys = messageParts dom (currentInputParts loc)"
      using c by (simp add: turnPayload_def)
    from assms c False m have "sys' = sys2 \<or> (\<exists>msg. sys' = printOutput env msg sys2)"
      by (cases x) (auto simp: askModel_def split: if_splits)
    then show ?thesis
    proof
      assume "sys' = sys2"
      with es p c show ?thesis by auto
    next
      assume "\<exists>msg. sys' = printOutput env msg sys2"
      then obtain msg where "sys' = printOutput env msg sys2" by blast
      with es p c show ?thesis by (auto simp: trace_printOutput)
    qed
  qed
qed

lemma turn_trace:
  assumes "\<not> aborted env (world sys)" and "turn env loc sys = (r, loc', sys')"
  shows "\<exists>es. trace sys' = trace (snd (captureState env sys)) @ es
           \<and> (list_all isToolEvent es
              \<or> (\<exists>es'. es = SendMessageStream (turnPayload env loc sys) # es' \<and> list_all isToolEvent es'))"
proof -
  obtain x sys1 where a: "askModel env loc sys = (x, sys1)" by (metis surj_pair)
  from askModel_trace[OF assms(1) a] obtain es where
    es: "trace sys1 = trace (snd (captureState env sys)) @ es"
        "list_all isToolEvent es
           \<or> (\<exists>es'. es = SendMessageStream (turnPayload env loc sys) # es' \<and> list_all isToolEvent es')"
    by blast
  show ?thesis
  proof (cases x)
    case (Inl t)
    with a assms(2) have "sys' = sys1" by (simp add: turn_def)
    with es show ?thesis by blast
  next
    case (Inr calls)
    with a assms(2) have "executeTools env calls loc sys1 = (r, loc', sys')" by (simp add: turn_def)
    from grows_executeTools[OF this] obtain es2 where
      es2: "trace sys' = trace sys1 @ es2" "list_all isToolEvent es2"
      by (auto simp: grows_def)
    from es(2) show ?thesis
    proof
      assume "list_all isToolEvent es"
      with es(1) es2 show ?thesis by (intro exI[of _ "es @ es2"]) simp
    next
      assume "\<exists>es'. es = SendMessageStream (turnPayload env loc sys) # es' \<and> list_all isToolEvent es'"
      then obtain es' where "es = SendMessageStream (turnPayload env loc sys) # es'" "list_all isToolEvent es'"
        by blast
      with es(1) es2 show ?thesis by (intro exI[of _ "es @ es2"]) simp
    qed
  qed
qed

subsection \<open>Turns of a run\<close>

text \<open>The calls of the model that a turn adds to the trace: none, or one with its payload.\<close>

lemma turn_model_calls:
  "filter isModelCall (drop (length (trace sys)) (trace (snd (snd (turn env loc sys))))) = []
   \<or> filter isModelCall (drop (length (trace sys)) (trace (snd (snd (turn env loc sys)))))
       = [SendMessageStream (turnPayload env loc sys)]"
proof (cases "aborted env (world sys)")
  case True
  then have "snd (snd (turn env loc sys)) = printOutput env cancelledNotice sys"
    by (simp add: turn_def askModel_def)
  then show ?thesis by (simp add: trace_printOutput)
next
  case False
  have t: "turn env loc sys
      = (fst (turn env loc sys), fst (snd (turn env loc sys)), snd (snd (turn env loc sys)))"
    by simp
  from turn_trace[OF False t] obtain es where
    es: "trace (snd (snd (turn env loc sys))) = trace (snd (captureState env sys)) @ es"
        "list_all isToolEvent es
           \<or> (\<exists>es'. es = SendMessageStream (turnPayload env loc sys) # es' \<and> list_all isToolEvent es')"
    by blast
  from es(2) have "filter isModelCall es = []
      \<or> filter isModelCall es = [SendMessageStream (turnPayload env loc sys)]"
    using toolEvents_no_calls by auto
  with es(1) show ?thesis
    by (auto simp: captureState_trace)
qed

lemma turn_calls_bound:
  assumes "turn env loc sys = (r, loc', sys')"
  shows "\<exists>es. trace sys' = trace sys @ es
           \<and> length (filter isModelCall es) \<le> 1 \<and> length (filter isSnapshotCall es) \<le> 1"
proof (cases "aborted env (world sys)")
  case True
  with assms have "sys' = printOutput env cancelledNotice sys"
    by (simp add: turn_def askModel_def)
  then show ?thesis by (simp add: trace_printOutput)
next
  case False
  from turn_trace[OF False assms] obtain es where
    es: "trace sys' = trace (snd (captureState env sys)) @ es"
        "list_all isToolEvent es
           \<or> (\<exists>es'. es = SendMessageStream (turnPayload env loc sys) # es' \<and> list_all isToolEvent es')"
    by blast
  from es(2) have "length (filter isModelCall es) \<le> 1 \<and> filter isSnapshotCall es = []"
    using toolEvents_no_calls by auto
  with es(1) show ?thesis
    by (simp add: captureState_trace)
qed

lemma runLoop_calls_bound:
  "runLoop env n loc sys = (r, loc', sys') \<Longrightarrow>
   \<exists>es. trace sys' = trace sys @ es
      \<and> length (filter isModelCall es) \<le> MAX_ITERATIONS - n
      \<and> length (filter isSnapshotCall es) \<le> MAX_ITERATIONS - n"
proof (induction env n loc sys rule: runLoop.induct)
  case (1 env n loc sys)
  show ?case
  proof (cases "n < MAX_ITERATIONS")
    case False
    with "1.prems" show ?thesis by (simp add: runLoop.simps[of env n])
  next
    case True
    obtain t loc1 sys1 where t: "turn env loc sys = (t, loc1, sys1)" by (metis prod_cases3)
    from turn_calls_bound[OF t] obtain es where
      es: "trace sys1 = trace sys @ es" "length (filter isModelCall es) \<le> 1"
          "length (filter isSnapshotCall es) \<le> 1" by blast
    show ?thesis
    proof (cases t)
      case Continue
      with True t "1.prems" have "runLoop env (n + 1) loc1 sys1 = (r, loc', sys')"
        by (simp add: runLoop.simps[of env n])
      from "1.IH"[OF True t[symmetric] _ _ this] Continue obtain es2 where
        es2: "trace sys' = trace sys1 @ es2" "length (filter isModelCall es2) \<le> MAX_ITERATIONS - (n + 1)"
          "length (filter isSnapshotCall es2) \<le> MAX_ITERATIONS - (n + 1)" by auto
      have "length (filter isModelCall (es @ es2)) \<le> MAX_ITERATIONS - n"
        using es(2) es2(2) True by simp
      moreover have "length (filter isSnapshotCall (es @ es2)) \<le> MAX_ITERATIONS - n"
        using es(3) es2(3) True by simp
      ultimately show ?thesis using es(1) es2(1) by (intro exI[of _ "es @ es2"]) simp
    next
      case Break
      with True t "1.prems" have "sys' = sys1" by (simp add: runLoop.simps[of env n])
      with es True show ?thesis by (intro exI[of _ es]) auto
    next
      case (Return msg)
      with True t "1.prems" have "sys' = sys1" by (simp add: runLoop.simps[of env n])
      with es True show ?thesis by (intro exI[of _ es]) auto
    qed
  qed
qed

lemma runTask_calls_bound:
  "length (filter isModelCall (trace (snd (runTask env prompt w)))) \<le> MAX_ITERATIONS
   \<and> length (filter isSnapshotCall (trace (snd (runTask env prompt w)))) \<le> MAX_ITERATIONS"
proof -
  have init: "filter isModelCall (trace s) = [] \<and> filter isSnapshotCall (trace s) = []"
    if "trace s = [EnsureConnection] \<or> trace s = [EnsureConnection, UpdateBorderOverlay]
        \<or> trace s = [EnsureConnection, UpdateBorderOverlay, UpdateBorderOverlay]" for s :: "'a Sys"
    using that by auto
  obtain c sys1 where c: "extCall EnsureConnection (ensureConnection env) \<lparr>world = w, trace = []\<rparr> = (c, sys1)"
    by (metis surj_pair)
  obtain o1 sys2 where o1: "extCall UpdateBorderOverlay (updateBorderOverlay env) sys1 = (o1, sys2)"
    by (metis surj_pair)
  obtain o2 sys3 where o2: "extCall UpdateBorderOverlay (updateBorderOverlay env) sys2 = (o2, sys3)"
    by (metis surj_pair)
  have t1: "trace sys1 = [EnsureConnection]" using extCall_result(1)[OF c] by simp
  have t2: "trace sys2 = [EnsureConnection, UpdateBorderOverlay]"
    using extCall_result(1)[OF o1] t1 by simp
  have t3: "trace sys3 = [EnsureConnection, UpdateBorderOverlay, UpdateBorderOverlay]"
    using extCall_result(1)[OF o2] t2 by simp
  obtain r loc' sys4 where l: "runLoop env 0 (initialLocals prompt) sys3 = (r, loc', sys4)"
    by (metis prod_cases3)
  from runLoop_calls_bound[OF l] t3 have
    b: "length (filter isModelCall (trace sys4)) \<le> MAX_ITERATIONS
        \<and> length (filter isSnapshotCall (trace sys4)) \<le> MAX_ITERATIONS"
    by auto
  show ?thesis
    using c o1 o2 l t1 t2 t3 b
    by (cases c; cases o1; cases o2) (simp_all add: runTask_def connectFailed_def trace_printOutput)
qed

lemma atTurn_bound: "atTurn env prompt w n loc sys \<Longrightarrow> n \<le> MAX_ITERATIONS"
  by (induction rule: atTurn.induct) simp_all

lemma atTurn_runTask:
  "atTurn env prompt w n loc sys \<Longrightarrow>
   runTask env prompt w = (Inr (fst (runLoop env n loc sys)), snd (snd (runLoop env n loc sys)))"
proof (induction rule: atTurn.induct)
  case (start sys1 sys2 sys3)
  then show ?case by (simp add: runTask_def split: prod.splits)
next
  case (step n loc sys loc1 sys1)
  then show ?case by (simp add: runLoop.simps[of env n])
qed

lemma turn_Continue_keeps:
  assumes "turn env loc sys = (Continue, loc1, sys1)" and "taskSummary loc = []"
    and "\<not> taskCompleted loc"
  shows "taskSummary loc1 = [] \<and> \<not> taskCompleted loc1"
proof -
  obtain x sys2 where a: "askModel env loc sys = (x, sys2)" by (metis surj_pair)
  show ?thesis
  proof (cases x)
    case (Inl t)
    with a assms(1) askModel_not_Continue[of env loc sys t sys2] show ?thesis
      by (simp add: turn_def)
  next
    case (Inr calls)
    with a assms(1) have e: "executeTools env calls loc sys2 = (Continue, loc1, sys1)"
      by (simp add: turn_def)
    show ?thesis
    proof (cases "calls = []")
      case True
      with e assms(2,3) show ?thesis by (auto simp: executeTools_def)
    next
      case False
      obtain l s where d: "dispatchCalls env calls (loc\<lparr>currentInputParts := []\<rparr>) sys2 = (l, s)"
        by (metis surj_pair)
      with False e have "\<not> taskCompleted l" "loc1 = l"
        by (auto simp: executeTools_def split: if_splits)
      with dispatchCalls_completion[OF d] assms(2) show ?thesis by simp
    qed
  qed
qed

lemma atTurn_fresh: "atTurn env prompt w n loc sys \<Longrightarrow> taskSummary loc = [] \<and> \<not> taskCompleted loc"
proof (induction rule: atTurn.induct)
  case (start sys1 sys2 sys3)
  then show ?case by (simp add: initialLocals_def)
next
  case (step n loc sys loc1 sys1)
  then show ?case using turn_Continue_keeps by blast
qed

text \<open>How the loop ends when a turn leaves it, and how it goes on.\<close>

lemma runLoop_Break:
  "n < MAX_ITERATIONS \<Longrightarrow> turn env loc sys = (Break, loc1, sys1) \<Longrightarrow>
   runLoop env n loc sys = (taskResult loc1, loc1, sys1)"
  by (simp add: runLoop.simps[of env n])

lemma runLoop_Return:
  "n < MAX_ITERATIONS \<Longrightarrow> turn env loc sys = (Return msg, loc1, sys1) \<Longrightarrow>
   runLoop env n loc sys = (msg, loc1, sys1)"
  by (simp add: runLoop.simps[of env n])

lemma runLoop_exhausted: "runLoop env MAX_ITERATIONS loc sys = (taskResult loc, loc, sys)"
  by (simp add: runLoop.simps[of env MAX_ITERATIONS])

lemma summaryOf_nonempty: "summaryOf call \<noteq> []"
  by (cases "map_of (argsOrEmpty call) ''summary''") (simp_all add: summaryOf_def)


text \<open>A turn in which a \<open>complete_task\<close> call is dispatched is the last one.\<close>

lemma completing_turn:
  assumes at: "atTurn env prompt w n loc sys" and n: "n < MAX_ITERATIONS"
    and ask: "askModel env loc sys = (Inr calls, sys1)"
    and nc: "notCancelledDuring env calls (loc\<lparr>currentInputParts := []\<rparr>) sys1"
    and ct: "filter isCompleteTask calls \<noteq> []"
  shows "runTask env prompt w
           = (Inr (summaryOf (last (filter isCompleteTask calls))),
              snd (dispatchCalls env calls (loc\<lparr>currentInputParts := []\<rparr>) sys1))"
proof -
  obtain loc' sys' where d: "dispatchCalls env calls (loc\<lparr>currentInputParts := []\<rparr>) sys1 = (loc', sys')"
    by (metis surj_pair)
  from dispatchCalls_not_cancelled[OF nc d] ct have
    fin: "taskCompleted loc'" "taskSummary loc' = summaryOf (last (filter isCompleteTask calls))"
    by simp_all
  from ct have "calls \<noteq> []" by auto
  with d fin(1) have "executeTools env calls loc sys1 = (Break, loc', sys')"
    by (simp add: executeTools_def)
  with ask have "turn env loc sys = (Break, loc', sys')" by (simp add: turn_def)
  from runLoop_Break[OF n this] have "runLoop env n loc sys = (taskResult loc', loc', sys')" .
  with atTurn_runTask[OF at] d fin(2) show ?thesis
    by (simp add: taskResult_def summaryOf_nonempty)
qed

subsection \<open>The action history of the visual delegate\<close>




subsection \<open>Concrete runs\<close>

lemma atTurn_sysStart:
  assumes "ensureConnection env = (\<lambda>w. (None, w))" and "updateBorderOverlay env = (\<lambda>w. (None, w))"
  shows "atTurn env prompt 0 0 (initialLocals prompt) sysStart"
proof (rule atTurn.start)
  show "extCall EnsureConnection (ensureConnection env) \<lparr>world = 0, trace = []\<rparr>
          = (None, \<lparr>world = 0, trace = [EnsureConnection]\<rparr>)"
    using assms(1) by (simp add: extCall_def)
  show "extCall UpdateBorderOverlay (updateBorderOverlay env) \<lparr>world = 0, trace = [EnsureConnection]\<rparr>
          = (None, \<lparr>world = 0, trace = [EnsureConnection, UpdateBorderOverlay]\<rparr>)"
    using assms(2) by (simp add: extCall_def)
  show "extCall UpdateBorderOverlay (updateBorderOverlay env)
          \<lparr>world = 0, trace = [EnsureConnection, UpdateBorderOverlay]\<rparr> = (None, sysStart)"
    using assms(2) by (simp add: extCall_def sysStart_def)
qed

lemma notCancelledDuring_never_aborted:
  assumes "\<And>w. \<not> aborted env w"
  shows "notCancelledDuring env calls loc sys"
proof (induction calls arbitrary: loc sys)
  case Nil
  then show ?case by simp
next
  case (Cons call calls)
  then show ?case using assms by (simp split: prod.splits)
qed

lemma baseEnv_turn_continues: "fst (turn baseEnv loc sys) = Continue"
  by (simp add: run_defs)

lemma baseEnv_atTurn: "n \<le> MAX_ITERATIONS \<Longrightarrow> \<exists>loc sys. atTurn baseEnv ''go'' 0 n loc sys"
proof (induction n)
  case 0
  have "atTurn baseEnv ''go'' 0 0 (initialLocals ''go'') sysStart"
    by (rule atTurn_sysStart) (simp_all add: baseEnv_def)
  then show ?case by blast
next
  case (Suc n)
  then obtain loc sys where at: "atTurn baseEnv ''go'' 0 n loc sys" by auto
  have "turn baseEnv loc sys = (Continue, snd (turn baseEnv loc sys))"
    using baseEnv_turn_continues[of loc sys] by (simp add: prod_eq_iff)
  then have "turn baseEnv loc sys = (Continue, fst (snd (turn baseEnv loc sys)), snd (snd (turn baseEnv loc sys)))"
    by simp
  from atTurn.step[OF at _ this] Suc.prems show ?case by auto
qed


section \<open>The claims\<close>

subsection \<open>The error of an empty stream\<close>

text \<open>
  C1. The claim: when the model call raises the error of an empty response, the turn counts
  as one without text and without function calls, and the loop goes on to the next turn.
  The code: the \<open>catch\<close> recognises the message, logs that it continues, and then falls
  through to \<open>return msg\<close>. On the environment whose model call throws
  \<open>Model stream ended with empty response text\<close>, \<open>runTask\<close> returns the error text
  after a single call of the model.
\<close>

theorem runTask_empty_stream_error_returns:
  "str_includes ''Error calling model: Model stream ended with empty response text''
     ''Model stream ended with empty response text''
   \<and> fst (runTask envEmptyStream ''go'' 0)
       = Inr ''Error calling model: Model stream ended with empty response text''
   \<and> length (filter isModelCall (trace (snd (runTask envEmptyStream ''go'' 0)))) = 1"
  by (simp add: run_defs envEmptyStream_def runLoop.simps[of _ 0])

subsection \<open>Exceptions that leave \<open>runTask\<close>\<close>

text \<open>
  C2. The claim: \<open>runTask\<close> always returns a string, and no exception reaches the caller.
  The code: \<open>updateBorderOverlay\<close> is called a second time after the \<open>try\<close> of the
  connection, outside every \<open>try\<close>. On the environment in which that second call throws,
  the exception leaves \<open>runTask\<close>.
\<close>

theorem runTask_overlay_exception_escapes:
  "fst (runTask envOverlayThrows ''go'' 0) = Inl ''Target closed''"
  by (simp add: run_defs envOverlayThrows_def)

text \<open>When that call does not throw, \<open>runTask\<close> returns a string.\<close>

lemma runTask_returns_unless_overlay_throws:
  assumes "\<And>w. fst (updateBorderOverlay env w) = None"
  shows "\<exists>s. fst (runTask env prompt w) = Inr s"
proof -
  have ov: "\<And>sys r sys'. extCall UpdateBorderOverlay (updateBorderOverlay env) sys = (r, sys') \<Longrightarrow> r = None"
    using assms by (auto simp: extCall_def split: prod.splits) (metis fst_conv)
  show ?thesis
    unfolding runTask_def connectFailed_def
    by (auto split: prod.splits option.splits dest: ov)
qed

subsection \<open>The corrective re-prompt\<close>

text \<open>
  C3, as amended. When a turn of a run gets from the model an answer without function
  calls (the stream ends without an error and the signal is not aborted at the checks up
  to there), the loop goes on to the next turn with the corrective re-prompt as the only
  carried-over input part: whatever tool responses the turn had carried are gone. The
  payload that the next turn hands to the model, if it calls the model, is the part with
  the fresh snapshot (when the snapshot is not empty) followed by that re-prompt.
\<close>

theorem reprompt_after_turn_without_calls:
  assumes "atTurn env prompt w n loc sys" and "n < MAX_ITERATIONS"
    and "askModel env loc sys = (Inr [], sys1)"
    and "loc' = loc\<lparr>currentInputParts := [Text rePrompt False]\<rparr>"
    and "sys' = printOutput env stoppedWarning sys1"
  shows "turn env loc sys = (Continue, loc', sys')
       \<and> atTurn env prompt w (n + 1) loc' sys'
       \<and> currentInputParts loc' = [Text rePrompt False]
       \<and> turnPayload env loc' sys' = stateParts (fst (captureState env sys')) @ [Text rePrompt False]
       \<and> (filter isModelCall (drop (length (trace sys')) (trace (snd (snd (turn env loc' sys'))))) = []
          \<or> filter isModelCall (drop (length (trace sys')) (trace (snd (snd (turn env loc' sys')))))
              = [SendMessageStream (stateParts (fst (captureState env sys')) @ [Text rePrompt False])])"
proof -
  from assms(3-5) have t: "turn env loc sys = (Continue, loc', sys')"
    by (simp add: turn_def executeTools_def)
  have p: "turnPayload env loc' sys' = stateParts (fst (captureState env sys')) @ [Text rePrompt False]"
    using assms(4) by (simp add: turnPayload_def messageParts_def)
  from atTurn.step[OF assms(1,2) t] t p turn_model_calls[of sys' env loc'] assms(4)
  show ?thesis by simp
qed

text \<open>
  The first turn of the run on \<open>envRePrompt\<close>: the model returns no call, and the payload
  of the second turn is the snapshot part and the re-prompt.
\<close>

theorem reprompt_after_turn_without_calls_witness:
  "atTurn envRePrompt ''go'' 0 0 (initialLocals ''go'') sysStart
   \<and> (0::nat) < MAX_ITERATIONS
   \<and> fst (askModel envRePrompt (initialLocals ''go'') sysStart) = Inr []
   \<and> atTurn envRePrompt ''go'' 0 1 ((initialLocals ''go'')\<lparr>currentInputParts := [Text rePrompt False]\<rparr>)
        (printOutput envRePrompt stoppedWarning (snd (askModel envRePrompt (initialLocals ''go'') sysStart)))
   \<and> turnPayload envRePrompt ((initialLocals ''go'')\<lparr>currentInputParts := [Text rePrompt False]\<rparr>)
        (printOutput envRePrompt stoppedWarning (snd (askModel envRePrompt (initialLocals ''go'') sysStart)))
       = [treePart, Text rePrompt False]"
proof -
  have at: "atTurn envRePrompt ''go'' 0 0 (initialLocals ''go'') sysStart"
    by (rule atTurn_sysStart) (simp_all add: envRePrompt_def baseEnv_def)
  have lt: "(0::nat) < MAX_ITERATIONS" by (simp add: MAX_ITERATIONS_def)
  have f: "fst (askModel envRePrompt (initialLocals ''go'') sysStart) = Inr []"
    by (simp add: run_defs envRePrompt_def sysStart_def)
  then have ask: "askModel envRePrompt (initialLocals ''go'') sysStart
      = (Inr [], snd (askModel envRePrompt (initialLocals ''go'') sysStart))"
    by (simp add: prod_eq_iff)
  have tree: "stateParts (fst (captureState envRePrompt
      (printOutput envRePrompt stoppedWarning (snd (askModel envRePrompt (initialLocals ''go'') sysStart)))))
      = [treePart]"
    by (simp add: run_defs envRePrompt_def treePart_def)
  from reprompt_after_turn_without_calls[OF at lt ask refl refl] at lt f tree show ?thesis by simp
qed

text \<open>
  The claim as it was stated, that the next payload consists of the re-prompt alone,
  fails on that run: the second payload has the snapshot part in front.
\<close>

theorem reprompt_payload_counterexample:
  "filter isModelCall (trace (snd (runTask envRePrompt ''go'' 0)))
     = [SendMessageStream [treePart, Text ''Task: go'' False],
        SendMessageStream [treePart, Text rePrompt False]]
   \<and> [treePart, Text rePrompt False] \<noteq> [Text rePrompt False]"
  by (simp add: run_defs envRePrompt_def treePart_def runLoop.simps[of _ 0] runLoop.simps[of _ "Suc 0"])

subsection \<open>Cancellation before the tools\<close>

text \<open>
  C4, as amended. When the model has queued two function calls in a turn of a run and the
  signal is found aborted at the check after the stream, then none of the two calls is
  executed: the run ends in the state in which the stream ended, with nothing added but
  the cancellation notice for \<open>printOutput\<close> (when the caller gave one), and \<open>runTask\<close>
  returns the generic text \<open>Task finished\<close>. The check in front of each tool execution
  does the same: reached with an aborted signal, it executes nothing.
\<close>

theorem cancelled_before_dispatch:
  assumes "atTurn env prompt w n loc sys" and "n < MAX_ITERATIONS"
    and "\<not> aborted env (world sys)" and "captureState env sys = (domSnapshot, sys1)"
    and "\<not> aborted env (world sys1)"
    and "streamModel env (messageParts domSnapshot (currentInputParts loc)) sys1 = (Inr [call1, call2], sys2)"
    and "aborted env (world sys2)"
  shows "runTask env prompt w = (Inr ''Task finished'', printOutput env cancelledNotice sys2)
       \<and> dispatchCalls env [call1, call2] loc sys2 = (loc, printOutput env cancelledNotice sys2)"
proof -
  from assms(3-7) have "turn env loc sys = (Break, loc, printOutput env cancelledNotice sys2)"
    by (simp add: turn_def askModel_def)
  from runLoop_Break[OF assms(2) this] atTurn_runTask[OF assms(1)] atTurn_fresh[OF assms(1)]
  have "runTask env prompt w = (Inr ''Task finished'', printOutput env cancelledNotice sys2)"
    by (simp add: taskResult_def)
  with assms(7) show ?thesis by simp
qed

text \<open>
  The run on \<open>envCancelAfterStream\<close>: the two calls are announced, the signal is aborted
  when the stream ends, and no browser tool is called.
\<close>

theorem cancelled_before_dispatch_witness:
  "atTurn envCancelAfterStream ''go'' 0 0 (initialLocals ''go'') sysStart
   \<and> (0::nat) < MAX_ITERATIONS
   \<and> \<not> aborted envCancelAfterStream (world sysStart)
   \<and> fst (captureState envCancelAfterStream sysStart) = []
   \<and> \<not> aborted envCancelAfterStream (world (snd (captureState envCancelAfterStream sysStart)))
   \<and> fst (streamModel envCancelAfterStream [Text ''Task: go'' False]
             (snd (captureState envCancelAfterStream sysStart)))
       = Inr [navigateCall, clickCall]
   \<and> aborted envCancelAfterStream
        (world (snd (streamModel envCancelAfterStream [Text ''Task: go'' False]
                       (snd (captureState envCancelAfterStream sysStart)))))
   \<and> runTask envCancelAfterStream ''go'' 0
       = (Inr ''Task finished'',
          printOutput envCancelAfterStream cancelledNotice
            (snd (streamModel envCancelAfterStream [Text ''Task: go'' False]
                    (snd (captureState envCancelAfterStream sysStart)))))
   \<and> filter isToolEvent (trace (snd (runTask envCancelAfterStream ''go'' 0)))
       = [GetMcpClient,
          Printed (wrench @ '' Generating tool call: navigate...''),
          Printed (wrench @ '' Generating tool call: click...''),
          Printed cancelledNotice]"
proof -
  have at: "atTurn envCancelAfterStream ''go'' 0 0 (initialLocals ''go'') sysStart"
    by (rule atTurn_sysStart) (simp_all add: envCancelAfterStream_def baseEnv_def)
  have lt: "(0::nat) < MAX_ITERATIONS" by (simp add: MAX_ITERATIONS_def)
  have a0: "\<not> aborted envCancelAfterStream (world sysStart)"
    by (simp add: envCancelAfterStream_def sysStart_def)
  have c: "fst (captureState envCancelAfterStream sysStart) = []"
    by (simp add: run_defs envCancelAfterStream_def sysStart_def)
  then have cap: "captureState envCancelAfterStream sysStart
      = ([], snd (captureState envCancelAfterStream sysStart))"
    by (simp add: prod_eq_iff)
  have a1: "\<not> aborted envCancelAfterStream (world (snd (captureState envCancelAfterStream sysStart)))"
    by (simp add: run_defs envCancelAfterStream_def sysStart_def)
  have s: "fst (streamModel envCancelAfterStream [Text ''Task: go'' False]
             (snd (captureState envCancelAfterStream sysStart))) = Inr [navigateCall, clickCall]"
    by (simp add: run_defs envCancelAfterStream_def sysStart_def)
  then have str: "streamModel envCancelAfterStream
        (messageParts [] (currentInputParts (initialLocals ''go'')))
        (snd (captureState envCancelAfterStream sysStart))
      = (Inr [navigateCall, clickCall],
         snd (streamModel envCancelAfterStream [Text ''Task: go'' False]
                (snd (captureState envCancelAfterStream sysStart))))"
    by (simp add: prod_eq_iff messageParts_def stateParts_def initialLocals_def)
  have a2: "aborted envCancelAfterStream
        (world (snd (streamModel envCancelAfterStream [Text ''Task: go'' False]
                       (snd (captureState envCancelAfterStream sysStart)))))"
    by (simp add: run_defs envCancelAfterStream_def sysStart_def)
  note r = cancelled_before_dispatch[OF at lt a0 cap a1 str a2]
  have tr: "filter isToolEvent (trace (printOutput envCancelAfterStream cancelledNotice
            (snd (streamModel envCancelAfterStream [Text ''Task: go'' False]
                    (snd (captureState envCancelAfterStream sysStart))))))
       = [GetMcpClient,
          Printed (wrench @ '' Generating tool call: navigate...''),
          Printed (wrench @ '' Generating tool call: click...''),
          Printed cancelledNotice]"
    by (simp add: run_defs envCancelAfterStream_def sysStart_def navigateCall_def clickCall_def)
  from r at lt a0 c a1 s a2 tr show ?thesis by simp
qed

text \<open>
  The claim as it was stated, that the loop exits returning a cancellation notice, fails
  on that run: what \<open>runTask\<close> returns is \<open>Task finished\<close>, which is not the notice and
  does not speak of cancellation.
\<close>

theorem cancellation_notice_not_returned_counterexample:
  "fst (runTask envCancelAfterStream ''go'' 0) = Inr ''Task finished''
   \<and> ''Task finished'' \<noteq> cancelledNotice
   \<and> \<not> str_includes ''Task finished'' ''cancel''"
  by (simp add: run_defs envCancelAfterStream_def runLoop.simps[of _ 0] cancelledNotice_def warningSign_def)

subsection \<open>The iteration cap\<close>

text \<open>
  C5. Whatever the model, the driver and the signal do, a run of \<open>runTask\<close> calls the model
  at most 20 times and captures the state at most 20 times, no turn starts beyond the
  twentieth, and when the loop comes to its test with \<open>iterationCount = 20\<close> the run ends
  there and returns \<open>Task finished\<close> (the summary is still empty then). That the loop
  terminates is what its definition as a total function with a decreasing measure says.
\<close>

theorem runTask_turns_bounded:
  "length (filter isModelCall (trace (snd (runTask env prompt w)))) \<le> 20
   \<and> length (filter isSnapshotCall (trace (snd (runTask env prompt w)))) \<le> 20
   \<and> (\<forall>n loc sys. atTurn env prompt w n loc sys \<longrightarrow>
         n \<le> 20 \<and> (n = 20 \<longrightarrow> runTask env prompt w = (Inr ''Task finished'', sys)))"
proof -
  have "runTask env prompt w = (Inr ''Task finished'', sys)"
    if "atTurn env prompt w 20 loc sys" for loc sys
    using atTurn_runTask[OF that] atTurn_fresh[OF that] runLoop_exhausted[of env loc sys]
    by (simp add: MAX_ITERATIONS_def taskResult_def)
  then show ?thesis
    using runTask_calls_bound[of env prompt w] atTurn_bound[of env prompt w]
    by (auto simp: MAX_ITERATIONS_def)
qed

text \<open>The run on \<open>baseEnv\<close>, whose model never calls a function, comes to the cap.\<close>

theorem runTask_turns_bounded_witness:
  "(\<exists>loc sys. atTurn baseEnv ''go'' 0 20 loc sys
              \<and> runTask baseEnv ''go'' 0 = (Inr ''Task finished'', sys))
   \<and> length (filter isModelCall (trace (snd (runTask baseEnv ''go'' 0)))) \<le> 20
   \<and> length (filter isSnapshotCall (trace (snd (runTask baseEnv ''go'' 0)))) \<le> 20"
proof -
  from baseEnv_atTurn[of 20] obtain loc sys where at: "atTurn baseEnv ''go'' 0 20 loc sys"
    by (auto simp: MAX_ITERATIONS_def)
  with runTask_turns_bounded[of baseEnv "''go''" 0] show ?thesis by blast
qed

subsection \<open>One state capture in every turn\<close>

text \<open>
  C6, as amended. Every turn that passes the cancellation check at its top begins with one
  attempt to capture the state: the MCP client is asked for once, and when it is there,
  exactly one \<open>take_snapshot\<close> call is issued to it; when getting the client fails, no
  snapshot call is issued and the turn goes on with an empty snapshot. Nothing else in
  the turn is a snapshot call of the state capture, the model is called at most once,
  right after the capture, and its payload is built from the snapshot of this capture.
\<close>

theorem capture_once_before_model:
  assumes "\<not> aborted env (world sys)" and "turn env loc sys = (r, loc', sys')"
  shows "\<exists>es. trace sys'
             = trace sys @ GetMcpClient
                 # (if fst (getMcpClient env (world sys)) = None
                    then [CallTool ''take_snapshot'' [(''verbose'', ''false'')]] else [])
                 @ es
           \<and> filter isSnapshotCall es = []
           \<and> (filter isModelCall es = []
              \<or> (\<exists>es'. es = SendMessageStream (turnPayload env loc sys) # es'
                        \<and> filter isModelCall es' = []))"
proof -
  from turn_trace[OF assms] obtain es where
    es: "trace sys' = trace (snd (captureState env sys)) @ es"
        "list_all isToolEvent es
           \<or> (\<exists>es'. es = SendMessageStream (turnPayload env loc sys) # es' \<and> list_all isToolEvent es')"
    by blast
  from es(2) have "filter isSnapshotCall es = []
      \<and> (filter isModelCall es = []
          \<or> (\<exists>es'. es = SendMessageStream (turnPayload env loc sys) # es' \<and> filter isModelCall es' = []))"
    using toolEvents_no_calls by auto
  with es(1) show ?thesis
    by (simp add: captureState_trace)
qed

text \<open>The first turn of the run on \<open>envRePrompt\<close>.\<close>

theorem capture_once_before_model_witness:
  "\<not> aborted envRePrompt (world sysStart)
   \<and> (\<exists>es. trace (snd (snd (turn envRePrompt (initialLocals ''go'') sysStart)))
             = trace sysStart @ GetMcpClient # [CallTool ''take_snapshot'' [(''verbose'', ''false'')]] @ es
           \<and> filter isSnapshotCall es = []
           \<and> (filter isModelCall es = []
              \<or> (\<exists>es'. es = SendMessageStream [treePart, Text ''Task: go'' False] # es'
                        \<and> filter isModelCall es' = [])))"
proof -
  have a0: "\<not> aborted envRePrompt (world sysStart)"
    by (simp add: envRePrompt_def baseEnv_def)
  have t: "turn envRePrompt (initialLocals ''go'') sysStart
      = (fst (turn envRePrompt (initialLocals ''go'') sysStart),
         fst (snd (turn envRePrompt (initialLocals ''go'') sysStart)),
         snd (snd (turn envRePrompt (initialLocals ''go'') sysStart)))"
    by simp
  have g: "fst (getMcpClient envRePrompt (world sysStart)) = None"
    by (simp add: envRePrompt_def baseEnv_def)
  have p: "turnPayload envRePrompt (initialLocals ''go'') sysStart = [treePart, Text ''Task: go'' False]"
    by (simp add: turnPayload_def run_defs envRePrompt_def treePart_def)
  from capture_once_before_model[OF a0 t] a0 g p show ?thesis by simp
qed

text \<open>
  The claim as it was stated, that exactly one snapshot call is issued to the driver in
  every turn, fails when the MCP client cannot be got: on \<open>envNoClient\<close> the model is
  called in a turn without any snapshot call.
\<close>

theorem snapshot_call_skipped_counterexample:
  "filter isSnapshotCall (trace (snd (runTask envNoClient ''go'' 0))) = []
   \<and> filter isModelCall (trace (snd (runTask envNoClient ''go'' 0)))
       = [SendMessageStream [Text ''Task: go'' False]]"
  by (simp add: run_defs envNoClient_def runLoop.simps[of _ 0])

subsection \<open>Completing the task\<close>

text \<open>
  C7, as amended. When a turn of a run gets from the model function calls among which is
  a \<open>complete_task\<close> call with the summary \<open>Done\<close>, no later call of the same turn is a
  \<open>complete_task\<close> call, and the signal is not aborted at any check up to the dispatch of
  the last call of the turn, then \<open>runTask\<close> returns \<open>Done\<close> and the run ends in the
  state in which the dispatch of the calls of that turn ends: every call of the turn is
  dispatched, those after the \<open>complete_task\<close> call too, and no further turn is executed.
\<close>

theorem complete_task_ends_run:
  assumes "atTurn env prompt w n loc sys" and "n < MAX_ITERATIONS"
    and "askModel env loc sys = (Inr (before @ call # after), sys1)"
    and "notCancelledDuring env (before @ call # after) (loc\<lparr>currentInputParts := []\<rparr>) sys1"
    and "isCompleteTask call" and "map_of (argsOrEmpty call) ''summary'' = Some ''Done''"
    and "filter isCompleteTask after = []"
  shows "runTask env prompt w
           = (Inr ''Done'',
              snd (dispatchCalls env (before @ call # after) (loc\<lparr>currentInputParts := []\<rparr>) sys1))"
proof -
  have l: "last (filter isCompleteTask (before @ call # after)) = call"
    using assms(5,7) by simp
  have ne: "filter isCompleteTask (before @ call # after) \<noteq> []"
    using assms(5) by simp
  have "summaryOf call = ''Done''" using assms(6) by (simp add: summaryOf_def)
  with completing_turn[OF assms(1-4) ne] l show ?thesis by simp
qed

text \<open>
  The run on \<open>envCompleteAmongCalls\<close>: \<open>navigate\<close>, \<open>complete_task\<close> and \<open>click\<close> in one
  answer. The run returns \<open>Done\<close>, the click after the completion is executed, and the
  model is called once.
\<close>

theorem complete_task_ends_run_witness:
  "atTurn envCompleteAmongCalls ''go'' 0 0 (initialLocals ''go'') sysStart
   \<and> (0::nat) < MAX_ITERATIONS
   \<and> fst (askModel envCompleteAmongCalls (initialLocals ''go'') sysStart)
       = Inr ([navigateCall] @ completeWith [(''summary'', ''Done'')] # [clickCall])
   \<and> notCancelledDuring envCompleteAmongCalls
        ([navigateCall] @ completeWith [(''summary'', ''Done'')] # [clickCall])
        ((initialLocals ''go'')\<lparr>currentInputParts := []\<rparr>)
        (snd (askModel envCompleteAmongCalls (initialLocals ''go'') sysStart))
   \<and> isCompleteTask (completeWith [(''summary'', ''Done'')])
   \<and> map_of (argsOrEmpty (completeWith [(''summary'', ''Done'')])) ''summary'' = Some ''Done''
   \<and> filter isCompleteTask [clickCall] = []
   \<and> fst (runTask envCompleteAmongCalls ''go'' 0) = Inr ''Done''
   \<and> filter (\<lambda>e. \<not> isToolEvent e) (trace (snd (runTask envCompleteAmongCalls ''go'' 0)))
       = [EnsureConnection, UpdateBorderOverlay, UpdateBorderOverlay,
          CallTool ''take_snapshot'' [(''verbose'', ''false'')],
          SendMessageStream [Text ''Task: go'' False]]
   \<and> BrowserTool click [Some ''87_4'', None] \<in> set (trace (snd (runTask envCompleteAmongCalls ''go'' 0)))"
proof -
  have at: "atTurn envCompleteAmongCalls ''go'' 0 0 (initialLocals ''go'') sysStart"
    by (rule atTurn_sysStart) (simp_all add: envCompleteAmongCalls_def baseEnv_def)
  have lt: "(0::nat) < MAX_ITERATIONS" by (simp add: MAX_ITERATIONS_def)
  have f: "fst (askModel envCompleteAmongCalls (initialLocals ''go'') sysStart)
       = Inr ([navigateCall] @ completeWith [(''summary'', ''Done'')] # [clickCall])"
    by (simp add: run_defs envCompleteAmongCalls_def sysStart_def)
  then have ask: "askModel envCompleteAmongCalls (initialLocals ''go'') sysStart
      = (Inr ([navigateCall] @ completeWith [(''summary'', ''Done'')] # [clickCall]),
         snd (askModel envCompleteAmongCalls (initialLocals ''go'') sysStart))"
    by (simp add: prod_eq_iff)
  have nc: "notCancelledDuring envCompleteAmongCalls
        ([navigateCall] @ completeWith [(''summary'', ''Done'')] # [clickCall])
        ((initialLocals ''go'')\<lparr>currentInputParts := []\<rparr>)
        (snd (askModel envCompleteAmongCalls (initialLocals ''go'') sysStart))"
    by (rule notCancelledDuring_never_aborted) (simp add: envCompleteAmongCalls_def baseEnv_def)
  have ic: "isCompleteTask (completeWith [(''summary'', ''Done'')])"
    by (simp add: isCompleteTask_def completeWith_def)
  have su: "map_of (argsOrEmpty (completeWith [(''summary'', ''Done'')])) ''summary'' = Some ''Done''"
    by (simp add: argsOrEmpty_def completeWith_def)
  have af: "filter isCompleteTask [clickCall] = []"
    by (simp add: isCompleteTask_def clickCall_def)
  note r = complete_task_ends_run[OF at lt ask nc ic su af]
  have tr: "filter (\<lambda>e. \<not> isToolEvent e) (trace (snd (runTask envCompleteAmongCalls ''go'' 0)))
       = [EnsureConnection, UpdateBorderOverlay, UpdateBorderOverlay,
          CallTool ''take_snapshot'' [(''verbose'', ''false'')],
          SendMessageStream [Text ''Task: go'' False]]
     \<and> BrowserTool click [Some ''87_4'', None] \<in> set (trace (snd (runTask envCompleteAmongCalls ''go'' 0)))"
    by (simp add: run_defs envCompleteAmongCalls_def runLoop.simps[of _ 0] navigateCall_def clickCall_def)
  from r at lt f nc ic su af tr show ?thesis by simp
qed

text \<open>
  The claim as it was stated fails when another \<open>complete_task\<close> call follows in the same
  turn: the summary of the last one is what \<open>runTask\<close> returns.
\<close>

theorem last_completion_wins_counterexample:
  "fst (fst (sendMessageStream envTwoCompletions [Text ''Task: go'' False] 0))
     = [CHUNK (Chunk None (Some [completeWith [(''summary'', ''Done'')],
                                 completeWith [(''summary'', ''Other'')]]))]
   \<and> fst (runTask envTwoCompletions ''go'' 0) = Inr ''Other''
   \<and> length (filter isModelCall (trace (snd (runTask envTwoCompletions ''go'' 0)))) = 1"
  by (simp add: run_defs envTwoCompletions_def runLoop.simps[of _ 0])

subsection \<open>Function responses\<close>




subsection \<open>The visual delegate at its step cap\<close>



subsection \<open>The default summary\<close>




end
